theory Spec2Isabelle
  imports Main "HOL-Library.Word"
begin

section \<open>Statement display sanitization (\<open>clearStatement\<close>)\<close>

text \<open>
  The source holds two compiled regular expressions and replaces every match of each by
  the empty string:
  \<^verbatim>\<open>
  matchSQLComments = regexp.MustCompile(`(?m)^--.*$[\r\n]*`)
  matchEmptyEOL    = regexp.MustCompile(`(?m)^$[\r\n]*`)

  func clearStatement(s string) string {
      s = matchSQLComments.ReplaceAllString(s, ``)
      return matchEmptyEOL.ReplaceAllString(s, ``)
  }
  \<close>
  Strings are byte lists. With the flag \<open>(?m)\<close>, \<open>^\<close> holds at the start of the text
  and after a line feed, \<open>$\<close> holds at the end of the text and before a line feed, and
  \<open>.\<close> is any character but the line feed (so it takes a carriage return). A matcher
  below is given the rest of the text at a position and whether \<open>^\<close> holds there; it
  answers with the rest of the text after the match at that position and whether \<open>^\<close>
  holds there.
\<close>

abbreviation LF :: char where "LF \<equiv> CHR 0x0A"
abbreviation CR :: char where "CR \<equiv> CHR 0x0D"

text \<open>The greedy tail \<open>[\r\n]*\<close>: the flag says whether the last character before the
  position is a line feed.\<close>

fun skipEOL :: "bool \<Rightarrow> string \<Rightarrow> bool \<times> string" where
  "skipEOL bol [] = (bol, [])"
| "skipEOL bol (c # cs) = (if c = CR \<or> c = LF then skipEOL (c = LF) cs else (bol, c # cs))"

text \<open>\<open>(?m)^--.*$[\r\n]*\<close>: at the beginning of a line, two dashes, the rest of the
  line up to (not including) its line feed, then every following CR and LF.\<close>

definition matchSQLComments :: "bool \<Rightarrow> string \<Rightarrow> (bool \<times> string) option" where
  "matchSQLComments bol s =
     (if bol \<and> take 2 s = ''--'' then Some (skipEOL False (dropWhile (\<lambda>c. c \<noteq> LF) s))
      else None)"

text \<open>\<open>(?m)^$[\r\n]*\<close>: at the beginning of a line that is also the end of a line (the
  next character is a line feed, or the text ends), then every following CR and LF.\<close>

definition matchEmptyEOL :: "bool \<Rightarrow> string \<Rightarrow> (bool \<times> string) option" where
  "matchEmptyEOL bol s =
     (if bol \<and> (case s of [] \<Rightarrow> True | c # _ \<Rightarrow> c = LF) then Some (skipEOL bol s)
      else None)"

text \<open>
  \<open>re.ReplaceAllString(s, ``)\<close>: the matches are searched from left to right, each
  search starting where the last match ended; a match is dropped from the text, an
  unmatched character is copied. After an empty match the scan copies one character and
  goes on behind it, as the library does.
\<close>

function replaceAllString :: "(bool \<Rightarrow> string \<Rightarrow> (bool \<times> string) option) \<Rightarrow> bool \<Rightarrow> string \<Rightarrow> string" where
  "replaceAllString re bol s =
     (case re bol s of
        Some (bol', rest) \<Rightarrow>
          if length rest < length s then replaceAllString re bol' rest
          else (case s of [] \<Rightarrow> [] | c # cs \<Rightarrow> c # replaceAllString re (c = LF) cs)
      | None \<Rightarrow> (case s of [] \<Rightarrow> [] | c # cs \<Rightarrow> c # replaceAllString re (c = LF) cs))"
  by pat_completeness auto
termination
  by (relation "measure (\<lambda>(re, bol, s). length s)") auto

definition clearStatement :: "string \<Rightarrow> string" where
  "clearStatement s =
     replaceAllString matchEmptyEOL True (replaceAllString matchSQLComments True s)"


subsection \<open>Line-wise reading of the sanitizer\<close>

text \<open>
  The reading of the specification: the text is cut into lines, each with its line feed
  (the last line may have none); a line that begins with the comment marker \<open>--\<close> in
  column 0 and a line that is entirely empty are dropped, every other line is kept as
  it is.
\<close>

fun splitLinesAcc :: "string \<Rightarrow> string \<Rightarrow> string list" where
  "splitLinesAcc l [] = (if l = [] then [] else [l])"
| "splitLinesAcc l (c # cs) =
     (if c = LF then (l @ [c]) # splitLinesAcc [] cs else splitLinesAcc (l @ [c]) cs)"

definition splitLines :: "string \<Rightarrow> string list" where
  "splitLines s = splitLinesAcc [] s"

definition isCommentLine :: "string \<Rightarrow> bool" where
  "isCommentLine l = (take 2 l = ''--'')"

definition isEmptyLine :: "string \<Rightarrow> bool" where
  "isEmptyLine l = (l = [] \<or> l = [LF])"

definition stripLines :: "string \<Rightarrow> string" where
  "stripLines s =
     concat (filter (\<lambda>l. \<not> isCommentLine l \<and> \<not> isEmptyLine l) (splitLines s))"

text \<open>The lines that this reading drops.\<close>

definition isStrippedLine :: "string \<Rightarrow> bool" where
  "isStrippedLine l = (isCommentLine l \<or> isEmptyLine l)"

text \<open>No dropped line of the text, ended by its line feed, is directly followed by a
  text that \<open>bad\<close> holds of. The first argument is the part of the current line that
  lies before the text.\<close>

fun noStrippedLineBefore :: "(string \<Rightarrow> bool) \<Rightarrow> string \<Rightarrow> string \<Rightarrow> bool" where
  "noStrippedLineBefore bad l [] = True"
| "noStrippedLineBefore bad l (c # cs) =
     (if c = LF then (\<not> isStrippedLine (l @ [c]) \<or> \<not> bad cs) \<and> noStrippedLineBefore bad [] cs
      else noStrippedLineBefore bad (l @ [c]) cs)"

text \<open>No dropped line is directly followed by a line that begins with a carriage
  return.\<close>

definition noCrAfterStripped :: "string \<Rightarrow> bool" where
  "noCrAfterStripped s = noStrippedLineBefore (\<lambda>t. take 1 t = [CR]) [] s"

text \<open>The text begins with a run of carriage returns and line feeds that ends in a
  carriage return, and the comment marker comes directly after the run.\<close>

definition crRunThenComment :: "string \<Rightarrow> bool" where
  "crRunThenComment t =
     (takeWhile (\<lambda>c. c = CR \<or> c = LF) t \<noteq> [] \<and>
      last (takeWhile (\<lambda>c. c = CR \<or> c = LF) t) = CR \<and>
      take 2 (dropWhile (\<lambda>c. c = CR \<or> c = LF) t) = ''--'')"

text \<open>No dropped line is followed by such a run and comment marker.\<close>

definition noCrCommentAfterStripped :: "string \<Rightarrow> bool" where
  "noCrCommentAfterStripped s = noStrippedLineBefore crRunThenComment [] s"


section \<open>The collaborators of the executor\<close>

text \<open>
  Bind parameters are the \<open>interface{}\<close> values the source passes: the version, an
  \<open>int64\<close>, and the direction, a \<open>bool\<close>.
\<close>

datatype arg = ArgInt64 "64 word" | ArgBool bool

text \<open>
  \<open>*sql.DB\<close> and \<open>*sql.Tx\<close> belong to the standard library and the driver, so they
  are a parameter: five operations on a database state \<open>'s\<close>, each answering with its
  Go result and the next state. \<open>'e\<close> is the type of the non-nil errors (\<open>None\<close> is
  \<open>nil\<close>), \<open>'r\<close> the type of \<open>sql.Result\<close>. The context \<open>ctx\<close> is handed on to
  these operations unchanged; what a cancellation does is part of their behaviour.
\<close>

record ('s, 'e, 'r) driver =
  beginTx :: "'s \<Rightarrow> 'e option \<times> 's"
  txExecContext :: "string \<Rightarrow> arg list \<Rightarrow> 's \<Rightarrow> ('r \<times> 'e option) \<times> 's"
  dbExecContext :: "string \<Rightarrow> arg list \<Rightarrow> 's \<Rightarrow> ('r \<times> 'e option) \<times> 's"
  txRollback :: "'s \<Rightarrow> 'e option \<times> 's"
  txCommit :: "'s \<Rightarrow> 'e option \<times> 's"

text \<open>\<open>GetDialect()\<close>: the two statement templates of the version table.\<close>

record dialect =
  insertVersionSQL :: string
  deleteVersionSQL :: string

text \<open>
  What the executor does to its surroundings: the database state, the calls it has made
  on the database (in order), the lines given to the logger, and the timer. The timer
  holds, for each statement still to be run in verbose mode, the values of
  \<open>time.Since(t)\<close> read at the firings of \<open>time.Tick(time.Minute)\<close> that win the
  \<open>select\<close> before the statement's result arrives.
\<close>

datatype call =
    BeginTx
  | TxExecContext string "arg list"
  | DbExecContext string "arg list"
  | TxRollback
  | TxCommit

datatype logArg = LogString string | LogElapsed int

record 's world =
  db :: 's
  calls :: "call list"
  logged :: "(string \<times> logArg list) list"
  timer :: "int list list"

definition db_BeginTx :: "('s, 'e, 'r) driver \<Rightarrow> 's world \<Rightarrow> 'e option \<times> 's world" where
  "db_BeginTx drv w =
     (case beginTx drv (db w) of
        (err, s') \<Rightarrow> (err, w\<lparr>db := s', calls := calls w @ [BeginTx]\<rparr>))"

definition tx_ExecContext ::
  "('s, 'e, 'r) driver \<Rightarrow> string \<Rightarrow> arg list \<Rightarrow> 's world \<Rightarrow> ('r \<times> 'e option) \<times> 's world" where
  "tx_ExecContext drv query args w =
     (case txExecContext drv query args (db w) of
        (res, s') \<Rightarrow> (res, w\<lparr>db := s', calls := calls w @ [TxExecContext query args]\<rparr>))"

definition db_ExecContext ::
  "('s, 'e, 'r) driver \<Rightarrow> string \<Rightarrow> arg list \<Rightarrow> 's world \<Rightarrow> ('r \<times> 'e option) \<times> 's world" where
  "db_ExecContext drv query args w =
     (case dbExecContext drv query args (db w) of
        (res, s') \<Rightarrow> (res, w\<lparr>db := s', calls := calls w @ [DbExecContext query args]\<rparr>))"

definition tx_Rollback :: "('s, 'e, 'r) driver \<Rightarrow> 's world \<Rightarrow> 'e option \<times> 's world" where
  "tx_Rollback drv w =
     (case txRollback drv (db w) of
        (err, s') \<Rightarrow> (err, w\<lparr>db := s', calls := calls w @ [TxRollback]\<rparr>))"

definition tx_Commit :: "('s, 'e, 'r) driver \<Rightarrow> 's world \<Rightarrow> 'e option \<times> 's world" where
  "tx_Commit drv w =
     (case txCommit drv (db w) of
        (err, s') \<Rightarrow> (err, w\<lparr>db := s', calls := calls w @ [TxCommit]\<rparr>))"


section \<open>The instrumented statement runner (\<open>execQuery\<close>)\<close>

definition grayColor :: string where
  "grayColor = CHR 0x1B # ''[90m''"

definition resetColor :: string where
  "resetColor = CHR 0x1B # ''[00m''"

text \<open>\<open>verboseInfo\<close>: a line for the logger, format and arguments, when the global flag
  \<open>verbose\<close> is set.\<close>

definition verboseInfo :: "bool \<Rightarrow> string \<Rightarrow> logArg list \<Rightarrow> 's world \<Rightarrow> 's world" where
  "verboseInfo verbose s args w =
     (if verbose then w\<lparr>logged := logged w @ [(grayColor @ s @ resetColor, args)]\<rparr> else w)"

definition nextTicks :: "'s world \<Rightarrow> int list \<times> 's world" where
  "nextTicks w = (case timer w of [] \<Rightarrow> ([], w) | t # ts \<Rightarrow> (t, w\<lparr>timer := ts\<rparr>))"

text \<open>The \<open>select\<close> loop: each firing of the timer before the result arrives logs the
  elapsed time (\<open>LogElapsed d\<close> stands for \<open>time.Since(t).Round(time.Second)\<close> where
  \<open>time.Since(t)\<close> is \<open>d\<close>); then the result is received from the channel.\<close>

fun stillInProgress :: "bool \<Rightarrow> int list \<Rightarrow> 's world \<Rightarrow> 's world" where
  "stillInProgress verbose [] w = w"
| "stillInProgress verbose (d # ds) w =
     stillInProgress verbose ds
       (verboseInfo verbose ''Executing statement still in progress for %v'' [LogElapsed d] w)"

text \<open>
  Without \<open>verbose\<close> the executor \<open>fn\<close> is called and its error returned. With
  \<open>verbose\<close> a goroutine calls \<open>fn\<close> once and sends its error on the channel; the
  caller waits in the \<open>select\<close> loop and returns the error it receives.
\<close>

definition execQuery ::
  "bool \<Rightarrow> (string \<Rightarrow> arg list \<Rightarrow> 's world \<Rightarrow> ('r \<times> 'e option) \<times> 's world) \<Rightarrow>
   string \<Rightarrow> arg list \<Rightarrow> 's world \<Rightarrow> 'e option \<times> 's world" where
  "execQuery verbose fn query args w =
     (if \<not> verbose then
        (case fn query args w of ((_, err), w') \<Rightarrow> (err, w'))
      else
        (case fn query args w of
           ((_, err), w1) \<Rightarrow>
             (case nextTicks w1 of
                (ticks, w2) \<Rightarrow> (err, stillInProgress verbose ticks w2))))"


section \<open>The execution coordinator (\<open>runSQLMigration\<close>)\<close>

text \<open>\<open>fmt.Errorf(format, args..., err)\<close> with the verb \<open>%w\<close>: the format, the formatted
  arguments before the wrapped error, and the wrapped error.\<close>

datatype 'e error = Errorf string "string list" 'e

text \<open>The loop over the statements inside the transaction; it leaves the function at
  the first error, after the rollback, whose result is dropped.\<close>

fun execStatementsTx ::
  "bool \<Rightarrow> ('s, 'e, 'r) driver \<Rightarrow> string list \<Rightarrow> 's world \<Rightarrow> 'e error option \<times> 's world" where
  "execStatementsTx verbose drv [] w = (None, w)"
| "execStatementsTx verbose drv (query # statements) w =
     (let w1 = verboseInfo verbose (''Executing statement: %s'' @ [LF])
                 [LogString (clearStatement query)] w
      in case execQuery verbose (tx_ExecContext drv) query [] w1 of
           (Some err, w2) \<Rightarrow>
             (let w3 = verboseInfo verbose ''Rollback transaction'' [] w2;
                  w4 = snd (tx_Rollback drv w3)
              in (Some (Errorf ''failed to execute SQL query %q: %w'' [clearStatement query] err), w4))
         | (None, w2) \<Rightarrow> execStatementsTx verbose drv statements w2)"

text \<open>The loop over the statements without a transaction.\<close>

fun execStatementsDb ::
  "bool \<Rightarrow> ('s, 'e, 'r) driver \<Rightarrow> string list \<Rightarrow> 's world \<Rightarrow> 'e error option \<times> 's world" where
  "execStatementsDb verbose drv [] w = (None, w)"
| "execStatementsDb verbose drv (query # statements) w =
     (let w1 = verboseInfo verbose ''Executing statement: %s'' [LogString (clearStatement query)] w
      in case execQuery verbose (db_ExecContext drv) query [] w1 of
           (Some err, w2) \<Rightarrow>
             (Some (Errorf ''failed to execute SQL query %q: %w'' [clearStatement query] err), w2)
         | (None, w2) \<Rightarrow> execStatementsDb verbose drv statements w2)"

definition runSQLMigration ::
  "bool \<Rightarrow> dialect \<Rightarrow> ('s, 'e, 'r) driver \<Rightarrow> string list \<Rightarrow> bool \<Rightarrow> 64 word \<Rightarrow> bool \<Rightarrow> bool \<Rightarrow>
   's world \<Rightarrow> 'e error option \<times> 's world" where
  "runSQLMigration verbose dia drv statements useTx v direction noVersioning w =
     (if useTx then
        (let w1 = verboseInfo verbose ''Begin transaction'' [] w
         in case db_BeginTx drv w1 of
              (Some err, w2) \<Rightarrow> (Some (Errorf ''failed to begin transaction: %w'' [] err), w2)
            | (None, w2) \<Rightarrow>
                (case execStatementsTx verbose drv statements w2 of
                   (Some e, w3) \<Rightarrow> (Some e, w3)
                 | (None, w3) \<Rightarrow>
                     (case
                        (if \<not> noVersioning then
                           (if direction then
                              (case execQuery verbose (tx_ExecContext drv) (insertVersionSQL dia)
                                      [ArgInt64 v, ArgBool direction] w3 of
                                 (Some err, w4) \<Rightarrow>
                                   (let w5 = verboseInfo verbose ''Rollback transaction'' [] w4;
                                        w6 = snd (tx_Rollback drv w5)
                                    in (Some (Errorf ''failed to insert new goose version: %w'' [] err), w6))
                               | (None, w4) \<Rightarrow> (None, w4))
                            else
                              (case execQuery verbose (tx_ExecContext drv) (deleteVersionSQL dia)
                                      [ArgInt64 v] w3 of
                                 (Some err, w4) \<Rightarrow>
                                   (let w5 = verboseInfo verbose ''Rollback transaction'' [] w4;
                                        w6 = snd (tx_Rollback drv w5)
                                    in (Some (Errorf ''failed to delete goose version: %w'' [] err), w6))
                               | (None, w4) \<Rightarrow> (None, w4)))
                         else (None, w3)) of
                        (Some e, w7) \<Rightarrow> (Some e, w7)
                      | (None, w7) \<Rightarrow>
                          (let w8 = verboseInfo verbose ''Commit transaction'' [] w7
                           in case tx_Commit drv w8 of
                                (Some err, w9) \<Rightarrow>
                                  (Some (Errorf ''failed to commit transaction: %w'' [] err), w9)
                              | (None, w9) \<Rightarrow> (None, w9)))))
      else
        (case execStatementsDb verbose drv statements w of
           (Some e, w1) \<Rightarrow> (Some e, w1)
         | (None, w1) \<Rightarrow>
             (if \<not> noVersioning then
                (if direction then
                   (case execQuery verbose (db_ExecContext drv) (insertVersionSQL dia)
                           [ArgInt64 v, ArgBool direction] w1 of
                      (Some err, w2) \<Rightarrow>
                        (Some (Errorf ''failed to insert new goose version: %w'' [] err), w2)
                    | (None, w2) \<Rightarrow> (None, w2))
                 else
                   (case execQuery verbose (db_ExecContext drv) (deleteVersionSQL dia)
                           [ArgInt64 v] w1 of
                      (Some err, w2) \<Rightarrow>
                        (Some (Errorf ''failed to delete goose version: %w'' [] err), w2)
                    | (None, w2) \<Rightarrow> (None, w2)))
              else (None, w1))))"


section \<open>Notions used to state the properties\<close>

text \<open>The state after the statements of a list were executed one after the other by
  the executor \<open>ex\<close>, none with a bind parameter.\<close>

fun applyAll :: "(string \<Rightarrow> arg list \<Rightarrow> 's \<Rightarrow> ('r \<times> 'e option) \<times> 's) \<Rightarrow> string list \<Rightarrow> 's \<Rightarrow> 's" where
  "applyAll ex [] s = s"
| "applyAll ex (q # qs) s = applyAll ex qs (snd (ex q [] s))"

text \<open>The position and the error of the first statement that fails when the list is
  executed in order from the state \<open>s\<close>; \<open>None\<close> when every statement succeeds.\<close>

fun firstFailure ::
  "(string \<Rightarrow> arg list \<Rightarrow> 's \<Rightarrow> ('r \<times> 'e option) \<times> 's) \<Rightarrow> string list \<Rightarrow> 's \<Rightarrow> (nat \<times> 'e) option" where
  "firstFailure ex [] s = None"
| "firstFailure ex (q # qs) s =
     (case snd (fst (ex q [] s)) of
        Some e \<Rightarrow> Some (0, e)
      | None \<Rightarrow> map_option (\<lambda>(k, e). (Suc k, e)) (firstFailure ex qs (snd (ex q [] s))))"

text \<open>The error the coordinator returns for a statement that failed with \<open>e\<close>.\<close>

abbreviation (input) queryError :: "string \<Rightarrow> 'e \<Rightarrow> 'e error" where
  "queryError q e \<equiv> Errorf ''failed to execute SQL query %q: %w'' [clearStatement q] e"

text \<open>The bookkeeping operation of a version and a direction: the statement and its
  bind parameters.\<close>

definition versionSQL :: "dialect \<Rightarrow> bool \<Rightarrow> string" where
  "versionSQL dia direction = (if direction then insertVersionSQL dia else deleteVersionSQL dia)"

definition versionArgs :: "64 word \<Rightarrow> bool \<Rightarrow> arg list" where
  "versionArgs v direction = (if direction then [ArgInt64 v, ArgBool True] else [ArgInt64 v])"

text \<open>The executor a mode runs its statements on, the call that is recorded for it,
  the state the first statement meets, and whether that state is reached (the
  transaction, if one is asked for, has begun).\<close>

definition executor ::
  "('s, 'e, 'r) driver \<Rightarrow> bool \<Rightarrow> string \<Rightarrow> arg list \<Rightarrow> 's \<Rightarrow> ('r \<times> 'e option) \<times> 's" where
  "executor drv useTx = (if useTx then txExecContext drv else dbExecContext drv)"

definition execCall :: "bool \<Rightarrow> string \<Rightarrow> arg list \<Rightarrow> call" where
  "execCall useTx query args = (if useTx then TxExecContext query args else DbExecContext query args)"

definition startState :: "('s, 'e, 'r) driver \<Rightarrow> bool \<Rightarrow> 's \<Rightarrow> 's" where
  "startState drv useTx s = (if useTx then snd (beginTx drv s) else s)"

definition began :: "('s, 'e, 'r) driver \<Rightarrow> bool \<Rightarrow> 's \<Rightarrow> bool" where
  "began drv useTx s = (if useTx then fst (beginTx drv s) = None else True)"

text \<open>The calls made by this invocation: those recorded after the ones that were
  there before.\<close>

definition newCalls :: "'s world \<Rightarrow> 's world \<Rightarrow> call list" where
  "newCalls w w' = drop (length (calls w)) (calls w')"

definition isExec :: "call \<Rightarrow> bool" where
  "isExec c = (case c of TxExecContext _ _ \<Rightarrow> True | DbExecContext _ _ \<Rightarrow> True | _ \<Rightarrow> False)"

text \<open>The driver \<open>drv\<close> with the error of its rollback replaced by what \<open>r\<close> gives;
  the state after the rollback is that of \<open>drv\<close>.\<close>

definition withRollbackError :: "('s \<Rightarrow> 'e option) \<Rightarrow> ('s, 'e, 'r) driver \<Rightarrow> ('s, 'e, 'r) driver" where
  "withRollbackError r drv = drv\<lparr>txRollback := \<lambda>s. (r s, snd (txRollback drv s))\<rparr>"

text \<open>An executor that answers with another \<open>sql.Result\<close> and is otherwise unchanged.\<close>

definition withResult ::
  "('r \<Rightarrow> 'q) \<Rightarrow> (string \<Rightarrow> arg list \<Rightarrow> 'w \<Rightarrow> ('r \<times> 'e option) \<times> 'w) \<Rightarrow>
   string \<Rightarrow> arg list \<Rightarrow> 'w \<Rightarrow> ('q \<times> 'e option) \<times> 'w" where
  "withResult g fn query args w =
     (case fn query args w of ((r, err), w') \<Rightarrow> ((g r, err), w'))"


section \<open>A database with transactions\<close>

text \<open>
  The state of such a database holds the committed content and the content seen inside
  the open transaction, if there is one. What a statement does to a content, and
  whether begin, rollback and commit answer with an error, is left to an engine.
\<close>

record 'd store =
  committed :: 'd
  pending :: "'d option"

record ('d, 'e, 'r) engine =
  run :: "string \<Rightarrow> arg list \<Rightarrow> 'd \<Rightarrow> ('r \<times> 'e option) \<times> 'd"
  beginError :: "'d \<Rightarrow> 'e option"
  rollbackError :: "'d \<Rightarrow> 'e option"
  commitError :: "'d \<Rightarrow> 'e option"
  errTxDone :: 'e
  noResult :: 'r

text \<open>
  Modelled from the spec: the database behind \<open>*sql.DB\<close> and \<open>*sql.Tx\<close>, which is no
  part of the repository. The spec's data model says that the transactional mode wraps
  the statements and the bookkeeping operation in one atomic unit, that the database
  guarantees no partial visibility, and that in autocommit mode each statement is an
  independent, immediately committed operation. So a statement acts on the content of
  the open transaction or, on the connection, on the committed content; a rollback
  forgets the transaction, and only a commit that succeeds replaces the committed
  content. A transaction handle that is already finished answers with
  \<open>sql.ErrTxDone\<close>.
\<close>

definition txStore :: "('d, 'e, 'r) engine \<Rightarrow> ('d store, 'e, 'r) driver" where
  "txStore eng =
     \<lparr> beginTx = (\<lambda>s. case beginError eng (committed s) of
                        Some e \<Rightarrow> (Some e, s)
                      | None \<Rightarrow> (None, s\<lparr>pending := Some (committed s)\<rparr>)),
       txExecContext = (\<lambda>query args s. case pending s of
                        None \<Rightarrow> ((noResult eng, Some (errTxDone eng)), s)
                      | Some d \<Rightarrow> (case run eng query args d of
                                     (res, d') \<Rightarrow> (res, s\<lparr>pending := Some d'\<rparr>))),
       dbExecContext = (\<lambda>query args s. case run eng query args (committed s) of
                        (res, d') \<Rightarrow> (res, s\<lparr>committed := d'\<rparr>)),
       txRollback = (\<lambda>s. case pending s of
                        None \<Rightarrow> (Some (errTxDone eng), s)
                      | Some d \<Rightarrow> (rollbackError eng d, s\<lparr>pending := None\<rparr>)),
       txCommit = (\<lambda>s. case pending s of
                        None \<Rightarrow> (Some (errTxDone eng), s)
                      | Some d \<Rightarrow> (case commitError eng d of
                                     Some e \<Rightarrow> (Some e, s\<lparr>pending := None\<rparr>)
                                   | None \<Rightarrow> (None, \<lparr>committed = d, pending = None\<rparr>))) \<rparr>"

text \<open>A small engine to run the model on: the content is the list of the statements
  that took effect; a statement in \<open>bad\<close> fails and changes nothing.\<close>

definition journal :: "string list \<Rightarrow> (string list, string, nat) engine" where
  "journal bad =
     \<lparr> run = (\<lambda>query args d.
                if query \<in> set bad then ((0, Some (''syntax error: '' @ query)), d)
                else ((1, None), d @ [query])),
       beginError = (\<lambda>d. None),
       rollbackError = (\<lambda>d. None),
       commitError = (\<lambda>d. None),
       errTxDone = ''sql: transaction has already been committed or rolled back'',
       noResult = 0 \<rparr>"

text \<open>A dialect and a fresh world for that engine.\<close>

definition testDialect :: dialect where
  "testDialect =
     \<lparr> insertVersionSQL = ''INSERT INTO goose_db_version (version_id, is_applied) VALUES (?, ?);'',
       deleteVersionSQL = ''DELETE FROM goose_db_version WHERE version_id=?;'' \<rparr>"

definition freshWorld :: "string list store world" where
  "freshWorld =
     \<lparr> db = \<lparr> committed = [], pending = None \<rparr>, calls = [], logged = [], timer = [] \<rparr>"


section \<open>Properties of the sanitizer\<close>

declare replaceAllString.simps [simp del]


lemma skipEOL_length: "length (snd (skipEOL b s)) \<le> length s"
  by (induction b s rule: skipEOL.induct) (auto intro: le_SucI)

lemma skipEOL_hd: "skipEOL b s = (b', c # r) \<Longrightarrow> c \<noteq> CR \<and> c \<noteq> LF"
  by (induction b s rule: skipEOL.induct) (auto split: if_splits)

lemma replaceAllString_Nil [simp]: "replaceAllString re b [] = []"
  by (simp add: replaceAllString.simps split: option.splits)

lemma replaceAllString_None:
  "re b (c # cs) = None \<Longrightarrow> replaceAllString re b (c # cs) = c # replaceAllString re (c = LF) cs"
  by (simp add: replaceAllString.simps)

lemma replaceAllString_Some:
  "re b s = Some (b', rest) \<Longrightarrow> length rest < length s \<Longrightarrow>
   replaceAllString re b s = replaceAllString re b' rest"
  by (simp add: replaceAllString.simps)

lemma matchSQLComments_False [simp]: "matchSQLComments False s = None"
  by (simp add: matchSQLComments_def)

lemma matchEmptyEOL_False [simp]: "matchEmptyEOL False s = None"
  by (simp add: matchEmptyEOL_def)

lemma comments_copy:
  "\<not> (b \<and> take 2 (c # cs) = ''--'') \<Longrightarrow>
   replaceAllString matchSQLComments b (c # cs) = c # replaceAllString matchSQLComments (c = LF) cs"
  by (rule replaceAllString_None) (simp add: matchSQLComments_def)

lemma dropWhile_length: "length (dropWhile P s) \<le> length s"
  by (induction s) auto

lemma comments_match:
  assumes "take 2 s = ''--''"
  shows "replaceAllString matchSQLComments True s =
         replaceAllString matchSQLComments (fst (skipEOL False (dropWhile (\<lambda>c. c \<noteq> LF) s)))
           (snd (skipEOL False (dropWhile (\<lambda>c. c \<noteq> LF) s)))"
proof -
  from assms obtain s' where s: "s = CHR ''-'' # CHR ''-'' # s'"
    by (cases s; cases "tl s") auto
  have "length (snd (skipEOL False (dropWhile (\<lambda>c. c \<noteq> LF) s))) \<le> length (dropWhile (\<lambda>c. c \<noteq> LF) s')"
    using skipEOL_length [of False "dropWhile (\<lambda>c. c \<noteq> LF) s'"] by (simp add: s)
  also have "\<dots> \<le> length s'" by (rule dropWhile_length)
  finally have "length (snd (skipEOL False (dropWhile (\<lambda>c. c \<noteq> LF) s))) < length s"
    by (simp add: s)
  moreover have "matchSQLComments True s =
      Some (fst (skipEOL False (dropWhile (\<lambda>c. c \<noteq> LF) s)), snd (skipEOL False (dropWhile (\<lambda>c. c \<noteq> LF) s)))"
    using assms by (simp add: matchSQLComments_def)
  ultimately show ?thesis by (rule replaceAllString_Some [rotated])
qed

lemma empty_copy:
  "\<not> (b \<and> c = LF) \<Longrightarrow>
   replaceAllString matchEmptyEOL b (c # cs) = c # replaceAllString matchEmptyEOL (c = LF) cs"
  by (rule replaceAllString_None) (simp add: matchEmptyEOL_def)

lemma empty_match:
  "replaceAllString matchEmptyEOL True (LF # cs) =
   replaceAllString matchEmptyEOL (fst (skipEOL True cs)) (snd (skipEOL True cs))"
proof -
  have "length (snd (skipEOL True cs)) < length (LF # cs)"
    using skipEOL_length [of True cs] by simp
  moreover have "matchEmptyEOL True (LF # cs) = Some (fst (skipEOL True cs), snd (skipEOL True cs))"
    by (simp add: matchEmptyEOL_def)
  ultimately show ?thesis by (rule replaceAllString_Some [rotated])
qed


lemma splitLinesAcc_line:
  "LF \<notin> set l \<Longrightarrow> splitLinesAcc a (l @ LF # rest) = (a @ l @ [LF]) # splitLinesAcc [] rest"
  by (induction l arbitrary: a) auto

lemma splitLinesAcc_last:
  "LF \<notin> set l \<Longrightarrow> splitLinesAcc a l = (if a @ l = [] then [] else [a @ l])"
  by (induction l arbitrary: a) auto

lemma stripLines_line:
  "LF \<notin> set l \<Longrightarrow> stripLines (l @ LF # rest) =
     (if \<not> isCommentLine (l @ [LF]) \<and> l \<noteq> [] then l @ [LF] else []) @ stripLines rest"
  by (simp add: stripLines_def splitLines_def splitLinesAcc_line isEmptyLine_def)

lemma stripLines_last:
  "LF \<notin> set l \<Longrightarrow> stripLines l = (if \<not> isCommentLine l then l else [])"
  by (auto simp: stripLines_def splitLines_def splitLinesAcc_last isEmptyLine_def)

lemma stripLines_LF: "stripLines (LF # rest) = stripLines rest"
  using stripLines_line [of "[]" rest] by simp

lemma replaceAllString_line:
  assumes "\<And>t. re False t = None"
  shows "LF \<notin> set l \<Longrightarrow> replaceAllString re False (l @ x) = l @ replaceAllString re False x"
  by (induction l) (auto simp: replaceAllString_None assms)

lemma replaceAllString_False_LF:
  assumes "\<And>t. re False t = None"
  shows "replaceAllString re False (LF # x) = LF # replaceAllString re True x"
  by (simp add: replaceAllString_None assms)

lemma comments_hd_CR:
  "replaceAllString matchSQLComments b s = CR # y \<Longrightarrow> \<exists>z. s = CR # z"
proof (induction "length s" arbitrary: b s rule: less_induct)
  case less
  show ?case
  proof (cases s)
    case Nil
    with less.prems show ?thesis by simp
  next
    case (Cons c cs)
    show ?thesis
    proof (cases "b \<and> take 2 s = ''--''")
      case True
      let ?r = "skipEOL False (dropWhile (\<lambda>c. c \<noteq> LF) s)"
      from True have eq: "replaceAllString matchSQLComments b s = replaceAllString matchSQLComments (fst ?r) (snd ?r)"
        using comments_match [of s] by simp
      from True Cons have "c = CHR ''-''" by (cases cs) auto
      then have len: "length (snd ?r) < length s"
        using skipEOL_length [of False "dropWhile (\<lambda>c. c \<noteq> LF) cs"] dropWhile_length [of "\<lambda>c. c \<noteq> LF" cs] Cons
        by simp
      from less.hyps [OF len, of "fst ?r"] eq less.prems obtain z where z: "snd ?r = CR # z" by auto
      have "?r = (fst ?r, CR # z)" by (simp add: z [symmetric])
      from skipEOL_hd [OF this] show ?thesis by simp
    next
      case False
      with Cons less.prems show ?thesis by (simp add: comments_copy)
    qed
  qed
qed

lemma empty_drop_LF:
  assumes "\<And>y. x \<noteq> CR # y"
  shows "replaceAllString matchEmptyEOL True (LF # x) = replaceAllString matchEmptyEOL True x"
proof (cases x)
  case Nil
  then show ?thesis by (simp add: empty_match)
next
  case (Cons c cs)
  with assms [of cs] have "c \<noteq> CR" by auto
  then show ?thesis
    by (cases "c = LF") (simp_all add: Cons empty_match)
qed


lemma take2_line_comment:
  "LF \<notin> set l \<Longrightarrow> (take 2 (l @ LF # rest) = ''--'') = (take 2 l = ''--'')"
  by (cases l; cases "tl l") auto

lemma replaceAllString_length: "length (replaceAllString re b s) \<le> length s"
proof (induction "length s" arbitrary: b s rule: less_induct)
  case less
  show ?case
  proof (cases s)
    case Nil
    then show ?thesis by simp
  next
    case (Cons c cs)
    have copy: "length (c # replaceAllString re (c = LF) cs) \<le> length s"
      using less [of cs "c = LF"] Cons by simp
    show ?thesis
    proof (cases "re b s")
      case None
      with copy Cons show ?thesis by (simp add: replaceAllString_None)
    next
      case (Some m)
      obtain b' rest where m: "m = (b', rest)" by (cases m)
      show ?thesis
      proof (cases "length rest < length s")
        case True
        with Some m have "replaceAllString re b s = replaceAllString re b' rest"
          by (simp add: replaceAllString_Some)
        moreover have "length (replaceAllString re b' rest) \<le> length rest"
          using less True by blast
        ultimately show ?thesis using True by simp
      next
        case False
        with Some m Cons have "replaceAllString re b s = c # replaceAllString re (c = LF) cs"
          by (simp add: replaceAllString.simps)
        with copy show ?thesis by simp
      qed
    qed
  qed
qed

lemma noStrippedLineBefore_line:
  "LF \<notin> set l \<Longrightarrow>
   noStrippedLineBefore bad a (l @ LF # rest) =
     ((\<not> isStrippedLine (a @ l @ [LF]) \<or> \<not> bad rest) \<and> noStrippedLineBefore bad [] rest)"
  by (induction l arbitrary: a) auto

lemma comments_hd_EOL:
  "replaceAllString matchSQLComments b s = c # y \<Longrightarrow> c = CR \<or> c = LF \<Longrightarrow> \<exists>z. s = c # z"
proof (induction "length s" arbitrary: b s rule: less_induct)
  case less
  show ?case
  proof (cases s)
    case Nil
    with less.prems show ?thesis by simp
  next
    case (Cons d ds)
    show ?thesis
    proof (cases "b \<and> take 2 s = ''--''")
      case True
      let ?r = "skipEOL False (dropWhile (\<lambda>c. c \<noteq> LF) s)"
      from True have eq: "replaceAllString matchSQLComments b s = replaceAllString matchSQLComments (fst ?r) (snd ?r)"
        using comments_match [of s] by simp
      from True Cons have "d = CHR ''-''" by (cases ds) auto
      then have len: "length (snd ?r) < length s"
        using skipEOL_length [of False "dropWhile (\<lambda>c. c \<noteq> LF) ds"] dropWhile_length [of "\<lambda>c. c \<noteq> LF" ds] Cons
        by simp
      from less.hyps [OF len, of "fst ?r"] eq less.prems obtain z where z: "snd ?r = c # z" by auto
      have "?r = (fst ?r, c # z)" by (simp add: z [symmetric])
      from skipEOL_hd [OF this] less.prems(2) show ?thesis by simp
    next
      case False
      with Cons less.prems show ?thesis by (simp add: comments_copy)
    qed
  qed
qed

lemma skipEOL_not_EOL:
  "(\<And>z. t \<noteq> CR # z) \<Longrightarrow> (\<And>z. t \<noteq> LF # z) \<Longrightarrow> skipEOL b t = (b, t)"
  by (cases t) auto

lemma skipEOL_comments:
  "skipEOL b (replaceAllString matchSQLComments b cs) =
     (fst (skipEOL b cs), replaceAllString matchSQLComments (fst (skipEOL b cs)) (snd (skipEOL b cs)))"
proof (induction cs arbitrary: b)
  case Nil
  then show ?case by simp
next
  case (Cons c cs)
  show ?case
  proof (cases "c = CR \<or> c = LF")
    case True
    then have "replaceAllString matchSQLComments b (c # cs) =
        c # replaceAllString matchSQLComments (c = LF) cs"
      by (intro comments_copy) auto
    with True Cons.IH [of "c = LF"] show ?thesis by simp
  next
    case False
    have "skipEOL b (replaceAllString matchSQLComments b (c # cs)) =
        (b, replaceAllString matchSQLComments b (c # cs))"
    proof (rule skipEOL_not_EOL)
      fix z
      show "replaceAllString matchSQLComments b (c # cs) \<noteq> CR # z"
        using comments_hd_EOL [of b "c # cs" CR z] False by auto
      show "replaceAllString matchSQLComments b (c # cs) \<noteq> LF # z"
        using comments_hd_EOL [of b "c # cs" LF z] False by auto
    qed
    with False show ?thesis by simp
  qed
qed

lemma empty_flag:
  "replaceAllString matchEmptyEOL True x = replaceAllString matchEmptyEOL False x"
  if "\<And>y. x \<noteq> LF # y"
proof (cases x)
  case Nil
  then show ?thesis by simp
next
  case (Cons c cs)
  then have "c \<noteq> LF" using that [of cs] by simp
  then show ?thesis by (simp add: Cons empty_copy)
qed

lemma skipEOL_takeWhile:
  "skipEOL b t =
     (if takeWhile (\<lambda>c. c = CR \<or> c = LF) t = [] then b
      else last (takeWhile (\<lambda>c. c = CR \<or> c = LF) t) = LF,
      dropWhile (\<lambda>c. c = CR \<or> c = LF) t)"
  by (induction t arbitrary: b) auto


lemma comments_flag:
  "replaceAllString matchSQLComments True x = replaceAllString matchSQLComments False x"
  if "take 2 x \<noteq> ''--''"
proof (cases x)
  case Nil
  then show ?thesis by simp
next
  case (Cons c cs)
  with that show ?thesis by (simp add: comments_copy)
qed

lemma comments_not_EOL:
  assumes "\<And>z. x \<noteq> CR # z" and "\<And>z. x \<noteq> LF # z"
  shows "replaceAllString matchSQLComments b x \<noteq> CR # y"
    and "replaceAllString matchSQLComments b x \<noteq> LF # y"
  using comments_hd_EOL [of b x CR y] comments_hd_EOL [of b x LF y] assms by auto

lemma skipEOL_snd_not_EOL:
  "snd (skipEOL b t) \<noteq> CR # z" "snd (skipEOL b t) \<noteq> LF # z"
proof -
  have "snd (skipEOL b t) = c # z \<Longrightarrow> c \<noteq> CR \<and> c \<noteq> LF" for c
    using skipEOL_hd [of b t "fst (skipEOL b t)" c z] by (simp add: prod_eq_iff)
  then show "snd (skipEOL b t) \<noteq> CR # z" "snd (skipEOL b t) \<noteq> LF # z" by auto
qed

lemma clearStatement_LF:
  "clearStatement (LF # rest) =
     replaceAllString matchEmptyEOL (fst (skipEOL True rest))
       (replaceAllString matchSQLComments (fst (skipEOL True rest)) (snd (skipEOL True rest)))"
  by (simp add: clearStatement_def comments_copy empty_match skipEOL_comments)

lemma clearStatement_comment_line:
  assumes "take 2 s = ''--''" and "dropWhile (\<lambda>c. c \<noteq> LF) s = LF # rest"
  shows "clearStatement s = clearStatement (LF # rest)"
proof -
  let ?b = "fst (skipEOL True rest)" and ?r = "snd (skipEOL True rest)"
  have "replaceAllString matchSQLComments True s = replaceAllString matchSQLComments ?b ?r"
    using comments_match [OF assms(1)] assms(2) by simp
  moreover have "replaceAllString matchEmptyEOL True (replaceAllString matchSQLComments ?b ?r) =
      replaceAllString matchEmptyEOL ?b (replaceAllString matchSQLComments ?b ?r)"
  proof (cases ?b)
    case True
    then show ?thesis by simp
  next
    case False
    have "replaceAllString matchSQLComments ?b ?r \<noteq> LF # y" for y
      by (rule comments_not_EOL) (rule skipEOL_snd_not_EOL)+
    from empty_flag [OF this] False show ?thesis by simp
  qed
  ultimately show ?thesis by (simp add: clearStatement_def clearStatement_LF [unfolded clearStatement_def])
qed

lemma clearStatement_not_EOL:
  "clearStatement (LF # rest) \<noteq> CR # y"
proof
  let ?b = "fst (skipEOL True rest)" and ?r = "snd (skipEOL True rest)"
  let ?Y = "replaceAllString matchSQLComments ?b ?r"
  assume a: "clearStatement (LF # rest) = CR # y"
  have Y: "?Y \<noteq> CR # z" "?Y \<noteq> LF # z" for z
    by (rule comments_not_EOL; rule skipEOL_snd_not_EOL)+
  show False
  proof (cases ?Y)
    case Nil
    with a show ?thesis by (simp add: clearStatement_LF)
  next
    case (Cons c cs)
    with Y [of cs] have "c \<noteq> CR" "c \<noteq> LF" by auto
    with a Cons show ?thesis by (simp add: clearStatement_LF empty_copy)
  qed
qed

lemma clearStatement_kept_line:
  assumes "LF \<notin> set l" and "l \<noteq> []" and "take 2 l \<noteq> ''--''"
  shows "clearStatement (l @ LF # rest) = l @ LF # clearStatement rest"
    and "clearStatement l = l"
proof -
  from assms obtain c l' where l: "l = c # l'" and c: "c \<noteq> LF" and l': "LF \<notin> set l'"
    by (cases l) auto
  have nc: "take 2 (l @ x) \<noteq> ''--''" if "x = [] \<or> (\<exists>r. x = LF # r)" for x
    using assms(1,3) that take2_line_comment [of l] by auto
  have r1: "replaceAllString matchSQLComments True (l @ x) =
      l @ replaceAllString matchSQLComments False x" if "x = [] \<or> (\<exists>r. x = LF # r)" for x
  proof -
    from nc [OF that] have "replaceAllString matchSQLComments True (c # l' @ x) =
        c # replaceAllString matchSQLComments (c = LF) (l' @ x)"
      by (intro comments_copy) (simp add: l)
    with c l' show ?thesis by (simp add: l replaceAllString_line)
  qed
  have r2: "replaceAllString matchEmptyEOL True (l @ x) =
      l @ replaceAllString matchEmptyEOL False x" for x
    using c l' by (simp add: l empty_copy replaceAllString_line)
  show "clearStatement (l @ LF # rest) = l @ LF # clearStatement rest"
    using r1 [of "LF # rest"] r2 by (simp add: clearStatement_def replaceAllString_False_LF)
  show "clearStatement l = l"
    using r1 [of "[]"] r2 [of "[]"] by (simp add: clearStatement_def)
qed

lemma clearStatement_length: "length (clearStatement s) \<le> length s"
  unfolding clearStatement_def
  using replaceAllString_length [of matchEmptyEOL True "replaceAllString matchSQLComments True s"]
    replaceAllString_length [of matchSQLComments True s]
  by simp

lemma clearStatement_comment_shorter:
  assumes "take 2 s = ''--''"
  shows "length (clearStatement s) < length s"
proof -
  from assms obtain s' where s: "s = CHR ''-'' # CHR ''-'' # s'"
    by (cases s; cases "tl s") auto
  let ?r = "skipEOL False (dropWhile (\<lambda>c. c \<noteq> LF) s)"
  have "length (replaceAllString matchSQLComments True s) \<le> length (snd ?r)"
    using comments_match [OF assms] replaceAllString_length [of matchSQLComments "fst ?r" "snd ?r"]
    by simp
  also have "\<dots> \<le> length (dropWhile (\<lambda>c. c \<noteq> LF) s')"
    using skipEOL_length [of False "dropWhile (\<lambda>c. c \<noteq> LF) s'"] by (simp add: s)
  also have "\<dots> \<le> length s'" by (rule dropWhile_length)
  finally have "length (replaceAllString matchSQLComments True s) < length s" by (simp add: s)
  with replaceAllString_length [of matchEmptyEOL True "replaceAllString matchSQLComments True s"]
  show ?thesis by (simp add: clearStatement_def)
qed

lemma line_cases:
  obtains (empty) "s = []"
  | (last) l where "s = l" "l \<noteq> []" "LF \<notin> set l"
  | (line) l rest where "s = l @ LF # rest" "LF \<notin> set l"
      "dropWhile (\<lambda>c. c \<noteq> LF) s = LF # rest"
proof (cases "dropWhile (\<lambda>c. c \<noteq> LF) s")
  case Nil
  then have "LF \<notin> set s" by (auto simp: dropWhile_eq_Nil_conv)
  with that show ?thesis by (cases "s = []") auto
next
  case (Cons d rest)
  then have "d = LF" using hd_dropWhile [of "\<lambda>c. c \<noteq> LF" s] by force
  with Cons have "s = takeWhile (\<lambda>c. c \<noteq> LF) s @ LF # rest"
    by (metis takeWhile_dropWhile_id)
  moreover have "LF \<notin> set (takeWhile (\<lambda>c. c \<noteq> LF) s)" by (auto dest: set_takeWhileD)
  ultimately show ?thesis using that(3) Cons \<open>d = LF\<close> by blast
qed


lemma noStrippedLineBefore_last: "LF \<notin> set l \<Longrightarrow> noStrippedLineBefore bad a l"
  by (induction l arbitrary: a) auto

lemma clearStatement_comment_last:
  assumes "take 2 s = ''--''" and "dropWhile (\<lambda>c. c \<noteq> LF) s = []"
  shows "clearStatement s = []"
  using comments_match [OF assms(1)] assms(2) by (simp add: clearStatement_def)

lemma clearStatement_LF_noCR:
  assumes "\<And>y. rest \<noteq> CR # y"
  shows "clearStatement (LF # rest) = clearStatement rest"
proof -
  have "\<And>y. replaceAllString matchSQLComments True rest \<noteq> CR # y"
    using assms comments_hd_CR by blast
  then show ?thesis by (simp add: clearStatement_def comments_copy empty_drop_LF)
qed

lemma stripLines_CR: "\<exists>y. stripLines (CR # x) = CR # y"
proof (cases x rule: line_cases)
  case empty
  then show ?thesis using stripLines_last [of "[CR]"] by (simp add: isCommentLine_def)
next
  case (last l)
  then show ?thesis using stripLines_last [of "CR # l"] by (simp add: isCommentLine_def)
next
  case (line l rest)
  then show ?thesis using stripLines_line [of "CR # l" rest] by (simp add: isCommentLine_def)
qed

lemma line_comment:
  "LF \<notin> set l \<Longrightarrow> isCommentLine (l @ [LF]) = (take 2 l = ''--'')"
  using take2_line_comment [of l "[]"] by (simp add: isCommentLine_def)

lemma line_stripped:
  "LF \<notin> set l \<Longrightarrow> isStrippedLine (l @ [LF]) = (take 2 l = ''--'' \<or> l = [])"
  by (simp add: isStrippedLine_def line_comment isEmptyLine_def)

lemma stripLines_stripped_line:
  "LF \<notin> set l \<Longrightarrow> take 2 l = ''--'' \<or> l = [] \<Longrightarrow> stripLines (l @ LF # rest) = stripLines rest"
  by (auto simp: stripLines_line line_comment)

lemma stripLines_kept_line:
  "LF \<notin> set l \<Longrightarrow> take 2 l \<noteq> ''--'' \<Longrightarrow> l \<noteq> [] \<Longrightarrow>
   stripLines (l @ LF # rest) = l @ LF # stripLines rest"
  by (simp add: stripLines_line line_comment)

text \<open>
  C9 (as amended): the sanitizer strips exactly the lines whose comment marker \<open>--\<close>
  starts in column 0 and the lines that are entirely empty, each with its line feed,
  and keeps every other line (such as one with whitespace before \<open>--\<close> or with \<open>--\<close>
  in its middle) unchanged and in order, in every text where no dropped line is
  directly followed by a line that begins with a carriage return; and in those texts
  only.
\<close>

theorem clearStatement_strips_lines:
  "(clearStatement s = stripLines s) = noCrAfterStripped s"
proof (induction "length s" arbitrary: s rule: less_induct)
  case less
  show ?case
  proof (cases s rule: line_cases)
    case empty
    then show ?thesis
      by (simp add: clearStatement_def stripLines_def splitLines_def noCrAfterStripped_def)
  next
    case (last l)
    have "noCrAfterStripped s"
      unfolding noCrAfterStripped_def last(1) using last(3) by (rule noStrippedLineBefore_last)
    moreover have "clearStatement s = stripLines s"
    proof (cases "take 2 l = ''--''")
      case True
      moreover from last have "dropWhile (\<lambda>c. c \<noteq> LF) l = []" by auto
      ultimately show ?thesis
        using last by (simp add: clearStatement_comment_last stripLines_last isCommentLine_def)
    next
      case False
      with last show ?thesis
        by (simp add: clearStatement_kept_line(2) stripLines_last isCommentLine_def)
    qed
    ultimately show ?thesis by simp
  next
    case (line l rest)
    have P: "noCrAfterStripped s =
        ((\<not> (take 2 l = ''--'' \<or> l = []) \<or> take 1 rest \<noteq> [CR]) \<and> noCrAfterStripped rest)"
      unfolding noCrAfterStripped_def line(1)
      using noStrippedLineBefore_line [OF line(2), of "\<lambda>t. take 1 t = [CR]" "[]" rest]
      by (simp add: line_stripped [OF line(2)])
    have P_LF: "noCrAfterStripped (LF # rest) = (take 1 rest \<noteq> [CR] \<and> noCrAfterStripped rest)"
      by (simp add: noCrAfterStripped_def isStrippedLine_def isEmptyLine_def)
    show ?thesis
    proof (cases "take 2 l = ''--''")
      case True
      then have c: "take 2 s = ''--''"
        using take2_line_comment [OF line(2), of rest] by (simp add: line(1))
      from True have "length (LF # rest) < length s"
        by (cases l; cases "tl l") (auto simp: line(1))
      from less [OF this] clearStatement_comment_line [OF c line(3)] True P P_LF
      show ?thesis by (simp add: line(1) stripLines_stripped_line [OF line(2)] stripLines_LF)
    next
      case nocomment: False
      show ?thesis
      proof (cases "l = []")
        case True
        then have s: "s = LF # rest" by (simp add: line(1))
        show ?thesis
        proof (cases "take 1 rest = [CR]")
          case True
          then obtain r where r: "rest = CR # r" by (cases rest) auto
          from stripLines_CR [of r] obtain y where "stripLines s = CR # y"
            by (auto simp: s r stripLines_LF)
          with clearStatement_not_EOL [of rest y] True P \<open>l = []\<close> show ?thesis
            by (auto simp: s)
        next
          case False
          then have "\<And>y. rest \<noteq> CR # y" by auto
          from clearStatement_LF_noCR [OF this] less [of rest] False P \<open>l = []\<close> show ?thesis
            by (simp add: s stripLines_LF)
        qed
      next
        case False
        from less [of rest] nocomment False P
          clearStatement_kept_line(1) [OF line(2) False nocomment, of rest]
          stripLines_kept_line [OF line(2) nocomment False, of rest]
        show ?thesis by (simp add: line(1))
      qed
    qed
  qed
qed


lemma crRunThenComment_skipEOL:
  "crRunThenComment t = (\<not> fst (skipEOL True t) \<and> take 2 (snd (skipEOL True t)) = ''--'')"
proof (cases "takeWhile (\<lambda>c. c = CR \<or> c = LF) t = []")
  case True
  then show ?thesis by (simp add: skipEOL_takeWhile crRunThenComment_def)
next
  case False
  then have "last (takeWhile (\<lambda>c. c = CR \<or> c = LF) t) \<in> set (takeWhile (\<lambda>c. c = CR \<or> c = LF) t)"
    by (rule last_in_set)
  then have "last (takeWhile (\<lambda>c. c = CR \<or> c = LF) t) = CR \<or>
      last (takeWhile (\<lambda>c. c = CR \<or> c = LF) t) = LF"
    by (auto dest: set_takeWhileD)
  with False show ?thesis
    by (auto simp: skipEOL_takeWhile crRunThenComment_def)
qed

lemma noStrippedLineBefore_first_line:
  assumes "\<forall>c\<in>set a. c = CR" and "\<And>y. t \<noteq> LF # y" and "take 2 t \<noteq> ''--''"
  shows "noStrippedLineBefore bad a t = noStrippedLineBefore bad [] t"
proof (cases t rule: line_cases)
  case empty
  then show ?thesis by simp
next
  case (last l)
  then show ?thesis by (simp add: noStrippedLineBefore_last)
next
  case (line l rest)
  with assms(2) [of rest] have ne: "l \<noteq> []" by auto
  from assms(3) line(1) have nc: "take 2 l \<noteq> ''--''"
    using take2_line_comment [OF line(2), of rest] by simp
  have "\<not> isStrippedLine (l @ [LF])"
    using ne nc by (simp add: line_stripped [OF line(2)])
  moreover have "\<not> isStrippedLine (a @ l @ [LF])"
  proof (cases a)
    case Nil
    with \<open>\<not> isStrippedLine (l @ [LF])\<close> show ?thesis by simp
  next
    case (Cons c cs)
    with assms(1) have "c = CR" by simp
    with Cons show ?thesis
      by (simp add: isStrippedLine_def isCommentLine_def isEmptyLine_def)
  qed
  ultimately show ?thesis
    using noStrippedLineBefore_line [OF line(2), of bad a rest]
      noStrippedLineBefore_line [OF line(2), of bad "[]" rest]
    by (simp add: line(1))
qed

lemma noStrippedLineBefore_run:
  "fst (skipEOL b t) \<or> take 2 (snd (skipEOL b t)) \<noteq> ''--'' \<Longrightarrow>
   \<forall>c\<in>set a. c = CR \<Longrightarrow> b \<longrightarrow> a = [] \<Longrightarrow>
   noStrippedLineBefore crRunThenComment a t =
     noStrippedLineBefore crRunThenComment [] (snd (skipEOL b t))"
proof (induction t arbitrary: a b)
  case Nil
  then show ?case by simp
next
  case (Cons c cs)
  show ?case
  proof (cases "c = LF")
    case True
    with Cons.prems(1) have good: "fst (skipEOL True cs) \<or> take 2 (snd (skipEOL True cs)) \<noteq> ''--''"
      by simp
    then have "\<not> crRunThenComment cs" by (simp add: crRunThenComment_skipEOL)
    with Cons.IH [OF good, of "[]"] True show ?thesis by simp
  next
    case notLF: False
    show ?thesis
    proof (cases "c = CR")
      case True
      with Cons.prems(1) have good: "fst (skipEOL False cs) \<or> take 2 (snd (skipEOL False cs)) \<noteq> ''--''"
        by simp
      from Cons.IH [OF good, of "a @ [c]"] Cons.prems(2) True show ?thesis by simp
    next
      case False
      with notLF have skip: "skipEOL b (c # cs) = (b, c # cs)" by simp
      show ?thesis
      proof (cases "a = []")
        case True
        with skip show ?thesis by simp
      next
        case nonempty: False
        with Cons.prems(3) have "\<not> b" by simp
        with Cons.prems(1) skip have "take 2 (c # cs) \<noteq> ''--''" by simp
        moreover have "c # cs \<noteq> LF # y" for y using notLF by simp
        ultimately have "noStrippedLineBefore crRunThenComment a (c # cs) =
            noStrippedLineBefore crRunThenComment [] (c # cs)"
          using Cons.prems(2) by (intro noStrippedLineBefore_first_line) auto
        with skip show ?thesis by simp
      qed
    qed
  qed
qed

text \<open>
  C7 (as amended): applying the statement sanitizer twice yields the same result as
  applying it once for every string in which no dropped line (a line whose comment
  marker \<open>--\<close> starts in column 0, or an entirely empty line) is followed by a run of
  carriage returns and line feeds that ends in a carriage return directly before a
  comment marker \<open>--\<close>; and for those strings only.
\<close>

theorem clearStatement_idempotent:
  "(clearStatement (clearStatement s) = clearStatement s) = noCrCommentAfterStripped s"
proof (induction "length s" arbitrary: s rule: less_induct)
  case less
  show ?case
  proof (cases s rule: line_cases)
    case empty
    then show ?thesis by (simp add: clearStatement_def noCrCommentAfterStripped_def)
  next
    case (last l)
    have "noCrCommentAfterStripped s"
      unfolding noCrCommentAfterStripped_def last(1) using last(3) by (rule noStrippedLineBefore_last)
    moreover have "clearStatement (clearStatement s) = clearStatement s"
    proof (cases "take 2 l = ''--''")
      case True
      moreover from last have "dropWhile (\<lambda>c. c \<noteq> LF) l = []" by auto
      ultimately have "clearStatement s = []"
        using last by (simp add: clearStatement_comment_last)
      then show ?thesis by (simp add: clearStatement_def)
    next
      case False
      with last show ?thesis by (simp add: clearStatement_kept_line(2))
    qed
    ultimately show ?thesis by simp
  next
    case (line l rest)
    have E: "noCrCommentAfterStripped s =
        ((\<not> (take 2 l = ''--'' \<or> l = []) \<or> \<not> crRunThenComment rest) \<and> noCrCommentAfterStripped rest)"
      unfolding noCrCommentAfterStripped_def line(1)
      using noStrippedLineBefore_line [OF line(2), of crRunThenComment "[]" rest]
      by (simp add: line_stripped [OF line(2)])
    have E_LF: "noCrCommentAfterStripped (LF # rest) =
        (\<not> crRunThenComment rest \<and> noCrCommentAfterStripped rest)"
      by (simp add: noCrCommentAfterStripped_def isStrippedLine_def isEmptyLine_def)
    show ?thesis
    proof (cases "take 2 l = ''--''")
      case True
      then have c: "take 2 s = ''--''"
        using take2_line_comment [OF line(2), of rest] by (simp add: line(1))
      from True have "length (LF # rest) < length s"
        by (cases l; cases "tl l") (auto simp: line(1))
      from less [OF this] clearStatement_comment_line [OF c line(3)] True E E_LF
      show ?thesis by simp
    next
      case nocomment: False
      show ?thesis
      proof (cases "l = []")
        case False
        from clearStatement_kept_line(1) [OF line(2) False nocomment]
        have "clearStatement s = l @ LF # clearStatement rest"
          and "clearStatement (l @ LF # clearStatement rest) =
            l @ LF # clearStatement (clearStatement rest)"
          by (simp_all add: line(1))
        with less [of rest] nocomment False E show ?thesis by (simp add: line(1))
      next
        case True
        then have s: "s = LF # rest" by (simp add: line(1))
        let ?b = "fst (skipEOL True rest)" and ?r = "snd (skipEOL True rest)"
        have len: "length ?r < length s" using skipEOL_length [of True rest] by (simp add: s)
        have cs: "clearStatement s =
            replaceAllString matchEmptyEOL ?b (replaceAllString matchSQLComments ?b ?r)"
          by (simp add: s clearStatement_LF)
        show ?thesis
        proof (cases "crRunThenComment rest")
          case bad: True
          then have b: "\<not> ?b" and r: "take 2 ?r = ''--''"
            by (simp_all add: crRunThenComment_skipEOL)
          from r obtain x where x: "?r = CHR ''-'' # CHR ''-'' # x"
            by (cases ?r; cases "tl ?r") auto
          have "take 2 (clearStatement s) = ''--''"
            using b by (simp add: cs x comments_copy empty_copy)
          from clearStatement_comment_shorter [OF this]
          have "clearStatement (clearStatement s) \<noteq> clearStatement s" by auto
          with bad E True show ?thesis by simp
        next
          case good: False
          then have g: "?b \<or> take 2 ?r \<noteq> ''--''" by (simp add: crRunThenComment_skipEOL)
          have "noCrCommentAfterStripped rest = noCrCommentAfterStripped ?r"
            unfolding noCrCommentAfterStripped_def
            by (rule noStrippedLineBefore_run [OF g]) simp_all
          with good E True have Eq: "noCrCommentAfterStripped s = noCrCommentAfterStripped ?r"
            by simp
          have "clearStatement s = clearStatement ?r"
          proof (cases ?b)
            case True
            with cs show ?thesis by (simp add: clearStatement_def)
          next
            case False
            with g have no2: "take 2 ?r \<noteq> ''--''" by simp
            have "replaceAllString matchSQLComments True ?r \<noteq> LF # y" for y
              by (rule comments_not_EOL) (rule skipEOL_snd_not_EOL)+
            from empty_flag [OF this] comments_flag [OF no2] cs False show ?thesis
              by (simp add: clearStatement_def)
          qed
          with less [OF len] Eq show ?thesis by simp
        qed
      qed
    qed
  qed
qed


section \<open>Properties of the runner and of the coordinator\<close>

lemma verboseInfo_db [simp]: "db (verboseInfo verbose s args w) = db w"
  and verboseInfo_calls [simp]: "calls (verboseInfo verbose s args w) = calls w"
  and verboseInfo_timer [simp]: "timer (verboseInfo verbose s args w) = timer w"
  by (simp_all add: verboseInfo_def)

lemma stillInProgress_db [simp]: "db (stillInProgress verbose ds w) = db w"
  and stillInProgress_calls [simp]: "calls (stillInProgress verbose ds w) = calls w"
  by (induction ds arbitrary: w) simp_all

lemma nextTicks_db [simp]: "db (snd (nextTicks w)) = db w"
  and nextTicks_calls [simp]: "calls (snd (nextTicks w)) = calls w"
  and nextTicks_logged [simp]: "logged (snd (nextTicks w)) = logged w"
  by (simp_all add: nextTicks_def split: list.splits)

lemma execQuery_eq:
  "execQuery verbose fn query args w =
     (snd (fst (fn query args w)),
      if verbose
      then stillInProgress verbose (fst (nextTicks (snd (fn query args w))))
             (snd (nextTicks (snd (fn query args w))))
      else snd (fn query args w))"
  by (simp add: execQuery_def split: prod.splits)

lemma execQuery_fst: "fst (execQuery verbose fn query args w) = snd (fst (fn query args w))"
  by (simp add: execQuery_eq)

lemma execQuery_db: "db (snd (execQuery verbose fn query args w)) = db (snd (fn query args w))"
  by (simp add: execQuery_eq)

lemma execQuery_calls: "calls (snd (execQuery verbose fn query args w)) = calls (snd (fn query args w))"
  by (simp add: execQuery_eq)

lemma tx_ExecContext_simps [simp]:
  "fst (tx_ExecContext drv query args w) = fst (txExecContext drv query args (db w))"
  "db (snd (tx_ExecContext drv query args w)) = snd (txExecContext drv query args (db w))"
  "calls (snd (tx_ExecContext drv query args w)) = calls w @ [TxExecContext query args]"
  by (simp_all add: tx_ExecContext_def split: prod.splits)

lemma db_ExecContext_simps [simp]:
  "fst (db_ExecContext drv query args w) = fst (dbExecContext drv query args (db w))"
  "db (snd (db_ExecContext drv query args w)) = snd (dbExecContext drv query args (db w))"
  "calls (snd (db_ExecContext drv query args w)) = calls w @ [DbExecContext query args]"
  by (simp_all add: db_ExecContext_def split: prod.splits)

lemma tx_Rollback_simps [simp]:
  "db (snd (tx_Rollback drv w)) = snd (txRollback drv (db w))"
  "calls (snd (tx_Rollback drv w)) = calls w @ [TxRollback]"
  by (simp_all add: tx_Rollback_def split: prod.splits)

lemma tx_Commit_simps [simp]:
  "fst (tx_Commit drv w) = fst (txCommit drv (db w))"
  "db (snd (tx_Commit drv w)) = snd (txCommit drv (db w))"
  "calls (snd (tx_Commit drv w)) = calls w @ [TxCommit]"
  by (simp_all add: tx_Commit_def split: prod.splits)

lemma db_BeginTx_simps [simp]:
  "fst (db_BeginTx drv w) = fst (beginTx drv (db w))"
  "db (snd (db_BeginTx drv w)) = snd (beginTx drv (db w))"
  "calls (snd (db_BeginTx drv w)) = calls w @ [BeginTx]"
  by (simp_all add: db_BeginTx_def split: prod.splits)


lemmas execQuery_simps = execQuery_fst execQuery_db execQuery_calls


lemma execStatementsTx_step_ok:
  assumes "snd (fst (txExecContext drv q [] (db w))) = None"
  shows "execStatementsTx verbose drv (q # qs) w =
     execStatementsTx verbose drv qs
       (snd (execQuery verbose (tx_ExecContext drv) q []
          (verboseInfo verbose (''Executing statement: %s'' @ [LF]) [LogString (clearStatement q)] w)))"
proof -
  let ?r = "execQuery verbose (tx_ExecContext drv) q []
          (verboseInfo verbose (''Executing statement: %s'' @ [LF]) [LogString (clearStatement q)] w)"
  from assms have "fst ?r = None" by (simp add: execQuery_simps)
  then show ?thesis by (cases ?r) (simp add: Let_def)
qed

lemma execStatementsTx_step_fail:
  assumes "snd (fst (txExecContext drv q [] (db w))) = Some e"
  shows "execStatementsTx verbose drv (q # qs) w =
     (Some (queryError q e),
      snd (tx_Rollback drv (verboseInfo verbose ''Rollback transaction'' []
        (snd (execQuery verbose (tx_ExecContext drv) q []
          (verboseInfo verbose (''Executing statement: %s'' @ [LF]) [LogString (clearStatement q)] w))))))"
proof -
  let ?r = "execQuery verbose (tx_ExecContext drv) q []
          (verboseInfo verbose (''Executing statement: %s'' @ [LF]) [LogString (clearStatement q)] w)"
  from assms have "fst ?r = Some e" by (simp add: execQuery_simps)
  then show ?thesis by (cases ?r) (simp add: Let_def)
qed

lemma firstFailure_bound: "firstFailure ex L s = Some (k, e) \<Longrightarrow> k < length L"
proof (induction L arbitrary: s k)
  case Nil
  then show ?case by simp
next
  case (Cons q qs)
  then show ?case by (cases "snd (fst (ex q [] s))") auto
qed

lemma execStatementsTx_ok:
  "firstFailure (txExecContext drv) L (db w) = None \<Longrightarrow>
   fst (execStatementsTx verbose drv L w) = None \<and>
   db (snd (execStatementsTx verbose drv L w)) = applyAll (txExecContext drv) L (db w) \<and>
   calls (snd (execStatementsTx verbose drv L w)) = calls w @ map (\<lambda>q. TxExecContext q []) L"
proof (induction L arbitrary: w)
  case Nil
  then show ?case by simp
next
  case (Cons q qs)
  from Cons.prems have ok: "snd (fst (txExecContext drv q [] (db w))) = None"
    by (cases "snd (fst (txExecContext drv q [] (db w)))") simp_all
  let ?w2 = "snd (execQuery verbose (tx_ExecContext drv) q []
          (verboseInfo verbose (''Executing statement: %s'' @ [LF]) [LogString (clearStatement q)] w))"
  from Cons.prems ok have "firstFailure (txExecContext drv) qs (db ?w2) = None"
    by (simp add: execQuery_simps)
  from Cons.IH [OF this] show ?case
    by (simp only: execStatementsTx_step_ok [OF ok]) (simp add: execQuery_simps)
qed

lemma execStatementsTx_fail:
  "firstFailure (txExecContext drv) L (db w) = Some (k, e) \<Longrightarrow>
   fst (execStatementsTx verbose drv L w) = Some (queryError (L ! k) e) \<and>
   db (snd (execStatementsTx verbose drv L w)) =
     snd (txRollback drv (applyAll (txExecContext drv) (take (Suc k) L) (db w))) \<and>
   calls (snd (execStatementsTx verbose drv L w)) =
     calls w @ map (\<lambda>q. TxExecContext q []) (take (Suc k) L) @ [TxRollback]"
proof (induction L arbitrary: w k)
  case Nil
  then show ?case by simp
next
  case (Cons q qs)
  show ?case
  proof (cases "snd (fst (txExecContext drv q [] (db w)))")
    case None
    let ?w2 = "snd (execQuery verbose (tx_ExecContext drv) q []
          (verboseInfo verbose (''Executing statement: %s'' @ [LF]) [LogString (clearStatement q)] w))"
    from Cons.prems None obtain j where k: "k = Suc j"
      and j: "firstFailure (txExecContext drv) qs (db ?w2) = Some (j, e)"
      by (auto simp: execQuery_simps)
    from Cons.IH [OF j] show ?thesis
      by (simp only: execStatementsTx_step_ok [OF None]) (simp add: k execQuery_simps)
  next
    case (Some e')
    with Cons.prems have "k = 0" and "e' = e" by simp_all
    with Some show ?thesis
      by (simp only: execStatementsTx_step_fail [OF Some]) (simp add: execQuery_simps)
  qed
qed

lemma execStatementsDb_step_ok:
  assumes "snd (fst (dbExecContext drv q [] (db w))) = None"
  shows "execStatementsDb verbose drv (q # qs) w =
     execStatementsDb verbose drv qs
       (snd (execQuery verbose (db_ExecContext drv) q []
          (verboseInfo verbose ''Executing statement: %s'' [LogString (clearStatement q)] w)))"
proof -
  let ?r = "execQuery verbose (db_ExecContext drv) q []
          (verboseInfo verbose ''Executing statement: %s'' [LogString (clearStatement q)] w)"
  from assms have "fst ?r = None" by (simp add: execQuery_simps)
  then show ?thesis by (cases ?r) (simp add: Let_def)
qed

lemma execStatementsDb_step_fail:
  assumes "snd (fst (dbExecContext drv q [] (db w))) = Some e"
  shows "execStatementsDb verbose drv (q # qs) w =
     (Some (queryError q e),
      snd (execQuery verbose (db_ExecContext drv) q []
          (verboseInfo verbose ''Executing statement: %s'' [LogString (clearStatement q)] w)))"
proof -
  let ?r = "execQuery verbose (db_ExecContext drv) q []
          (verboseInfo verbose ''Executing statement: %s'' [LogString (clearStatement q)] w)"
  from assms have "fst ?r = Some e" by (simp add: execQuery_simps)
  then show ?thesis by (cases ?r) (simp add: Let_def)
qed

lemma execStatementsDb_ok:
  "firstFailure (dbExecContext drv) L (db w) = None \<Longrightarrow>
   fst (execStatementsDb verbose drv L w) = None \<and>
   db (snd (execStatementsDb verbose drv L w)) = applyAll (dbExecContext drv) L (db w) \<and>
   calls (snd (execStatementsDb verbose drv L w)) = calls w @ map (\<lambda>q. DbExecContext q []) L"
proof (induction L arbitrary: w)
  case Nil
  then show ?case by simp
next
  case (Cons q qs)
  from Cons.prems have ok: "snd (fst (dbExecContext drv q [] (db w))) = None"
    by (cases "snd (fst (dbExecContext drv q [] (db w)))") simp_all
  let ?w2 = "snd (execQuery verbose (db_ExecContext drv) q []
          (verboseInfo verbose ''Executing statement: %s'' [LogString (clearStatement q)] w))"
  from Cons.prems ok have "firstFailure (dbExecContext drv) qs (db ?w2) = None"
    by (simp add: execQuery_simps)
  from Cons.IH [OF this] show ?case
    by (simp only: execStatementsDb_step_ok [OF ok]) (simp add: execQuery_simps)
qed

lemma execStatementsDb_fail:
  "firstFailure (dbExecContext drv) L (db w) = Some (k, e) \<Longrightarrow>
   fst (execStatementsDb verbose drv L w) = Some (queryError (L ! k) e) \<and>
   db (snd (execStatementsDb verbose drv L w)) =
     applyAll (dbExecContext drv) (take (Suc k) L) (db w) \<and>
   calls (snd (execStatementsDb verbose drv L w)) =
     calls w @ map (\<lambda>q. DbExecContext q []) (take (Suc k) L)"
proof (induction L arbitrary: w k)
  case Nil
  then show ?case by simp
next
  case (Cons q qs)
  show ?case
  proof (cases "snd (fst (dbExecContext drv q [] (db w)))")
    case None
    let ?w2 = "snd (execQuery verbose (db_ExecContext drv) q []
          (verboseInfo verbose ''Executing statement: %s'' [LogString (clearStatement q)] w))"
    from Cons.prems None obtain j where k: "k = Suc j"
      and j: "firstFailure (dbExecContext drv) qs (db ?w2) = Some (j, e)"
      by (auto simp: execQuery_simps)
    from Cons.IH [OF j] show ?thesis
      by (simp only: execStatementsDb_step_ok [OF None]) (simp add: k execQuery_simps)
  next
    case (Some e')
    with Cons.prems have "k = 0" and "e' = e" by simp_all
    with Some show ?thesis
      by (simp only: execStatementsDb_step_fail [OF Some]) (simp add: execQuery_simps)
  qed
qed


lemma case_pair_option:
  "(case p of (Some e, w) \<Rightarrow> f e w | (None, w) \<Rightarrow> g w) =
   (case fst p of Some e \<Rightarrow> f e (snd p) | None \<Rightarrow> g (snd p))"
  by (cases p; cases "fst p") auto

lemma run_tx_begin_fail:
  assumes "fst (beginTx drv (db w)) = Some e"
  shows "fst (runSQLMigration verbose dia drv L True v direction noVersioning w) =
           Some (Errorf ''failed to begin transaction: %w'' [] e) \<and>
         db (snd (runSQLMigration verbose dia drv L True v direction noVersioning w)) =
           snd (beginTx drv (db w)) \<and>
         calls (snd (runSQLMigration verbose dia drv L True v direction noVersioning w)) =
           calls w @ [BeginTx]"
  using assms by (simp add: runSQLMigration_def Let_def case_pair_option)

lemma run_tx_stmt_fail:
  assumes "fst (beginTx drv (db w)) = None"
    and "firstFailure (txExecContext drv) L (snd (beginTx drv (db w))) = Some (k, e)"
  shows "fst (runSQLMigration verbose dia drv L True v direction noVersioning w) =
           Some (queryError (L ! k) e) \<and>
         db (snd (runSQLMigration verbose dia drv L True v direction noVersioning w)) =
           snd (txRollback drv (applyAll (txExecContext drv) (take (Suc k) L) (snd (beginTx drv (db w))))) \<and>
         calls (snd (runSQLMigration verbose dia drv L True v direction noVersioning w)) =
           calls w @ BeginTx # map (\<lambda>q. TxExecContext q []) (take (Suc k) L) @ [TxRollback]"
proof -
  let ?w2 = "snd (db_BeginTx drv (verboseInfo verbose ''Begin transaction'' [] w))"
  from assms(2) have "firstFailure (txExecContext drv) L (db ?w2) = Some (k, e)" by simp
  from execStatementsTx_fail [OF this, of verbose] assms(1) show ?thesis
    by (simp add: runSQLMigration_def Let_def case_pair_option)
qed


lemma versionSQL_args:
  "direction \<Longrightarrow> versionSQL dia direction = insertVersionSQL dia \<and>
     versionArgs v direction = [ArgInt64 v, ArgBool direction]"
  "\<not> direction \<Longrightarrow> versionSQL dia direction = deleteVersionSQL dia \<and>
     versionArgs v direction = [ArgInt64 v]"
  by (simp_all add: versionSQL_def versionArgs_def)

lemma run_tx_version_fail:
  assumes "fst (beginTx drv (db w)) = None"
    and "firstFailure (txExecContext drv) L (snd (beginTx drv (db w))) = None"
    and "\<not> noVersioning"
    and "snd (fst (txExecContext drv (versionSQL dia direction) (versionArgs v direction)
           (applyAll (txExecContext drv) L (snd (beginTx drv (db w)))))) = Some e"
  shows "fst (runSQLMigration verbose dia drv L True v direction noVersioning w) =
           Some (Errorf (if direction then ''failed to insert new goose version: %w''
                         else ''failed to delete goose version: %w'') [] e) \<and>
         db (snd (runSQLMigration verbose dia drv L True v direction noVersioning w)) =
           snd (txRollback drv (snd (txExecContext drv (versionSQL dia direction) (versionArgs v direction)
             (applyAll (txExecContext drv) L (snd (beginTx drv (db w))))))) \<and>
         calls (snd (runSQLMigration verbose dia drv L True v direction noVersioning w)) =
           calls w @ BeginTx # map (\<lambda>q. TxExecContext q []) L @
             [TxExecContext (versionSQL dia direction) (versionArgs v direction), TxRollback]"
proof -
  let ?w2 = "snd (db_BeginTx drv (verboseInfo verbose ''Begin transaction'' [] w))"
  from assms(2) have "firstFailure (txExecContext drv) L (db ?w2) = None" by simp
  from execStatementsTx_ok [OF this, of verbose] assms(1,3,4) show ?thesis
    by (cases direction)
       (simp_all add: runSQLMigration_def Let_def case_pair_option execQuery_simps versionSQL_args)
qed

lemma run_tx_commit:
  assumes "fst (beginTx drv (db w)) = None"
    and "firstFailure (txExecContext drv) L (snd (beginTx drv (db w))) = None"
    and "noVersioning \<or> snd (fst (txExecContext drv (versionSQL dia direction) (versionArgs v direction)
           (applyAll (txExecContext drv) L (snd (beginTx drv (db w)))))) = None"
  shows "fst (runSQLMigration verbose dia drv L True v direction noVersioning w) =
           map_option (Errorf ''failed to commit transaction: %w'' [])
             (fst (txCommit drv
               (if noVersioning then applyAll (txExecContext drv) L (snd (beginTx drv (db w)))
                else snd (txExecContext drv (versionSQL dia direction) (versionArgs v direction)
                       (applyAll (txExecContext drv) L (snd (beginTx drv (db w)))))))) \<and>
         db (snd (runSQLMigration verbose dia drv L True v direction noVersioning w)) =
           snd (txCommit drv
               (if noVersioning then applyAll (txExecContext drv) L (snd (beginTx drv (db w)))
                else snd (txExecContext drv (versionSQL dia direction) (versionArgs v direction)
                       (applyAll (txExecContext drv) L (snd (beginTx drv (db w))))))) \<and>
         calls (snd (runSQLMigration verbose dia drv L True v direction noVersioning w)) =
           calls w @ BeginTx # map (\<lambda>q. TxExecContext q []) L @
             (if noVersioning then []
              else [TxExecContext (versionSQL dia direction) (versionArgs v direction)]) @ [TxCommit]"
proof -
  let ?w2 = "snd (db_BeginTx drv (verboseInfo verbose ''Begin transaction'' [] w))"
  from assms(2) have "firstFailure (txExecContext drv) L (db ?w2) = None" by simp
  from execStatementsTx_ok [OF this, of verbose] assms(1,3) show ?thesis
    by (cases direction; cases noVersioning)
       (simp_all add: runSQLMigration_def Let_def case_pair_option execQuery_simps versionSQL_args
          split: option.splits)
qed

lemma run_db_stmt_fail:
  assumes "firstFailure (dbExecContext drv) L (db w) = Some (k, e)"
  shows "fst (runSQLMigration verbose dia drv L False v direction noVersioning w) =
           Some (queryError (L ! k) e) \<and>
         db (snd (runSQLMigration verbose dia drv L False v direction noVersioning w)) =
           applyAll (dbExecContext drv) (take (Suc k) L) (db w) \<and>
         calls (snd (runSQLMigration verbose dia drv L False v direction noVersioning w)) =
           calls w @ map (\<lambda>q. DbExecContext q []) (take (Suc k) L)"
  using execStatementsDb_fail [OF assms, of verbose]
  by (simp add: runSQLMigration_def Let_def case_pair_option)

lemma run_db_ok:
  assumes "firstFailure (dbExecContext drv) L (db w) = None"
  shows "fst (runSQLMigration verbose dia drv L False v direction noVersioning w) =
           (if noVersioning then None
            else map_option (Errorf (if direction then ''failed to insert new goose version: %w''
                         else ''failed to delete goose version: %w'') [])
              (snd (fst (dbExecContext drv (versionSQL dia direction) (versionArgs v direction)
                 (applyAll (dbExecContext drv) L (db w)))))) \<and>
         db (snd (runSQLMigration verbose dia drv L False v direction noVersioning w)) =
           (if noVersioning then applyAll (dbExecContext drv) L (db w)
            else snd (dbExecContext drv (versionSQL dia direction) (versionArgs v direction)
                 (applyAll (dbExecContext drv) L (db w)))) \<and>
         calls (snd (runSQLMigration verbose dia drv L False v direction noVersioning w)) =
           calls w @ map (\<lambda>q. DbExecContext q []) L @
             (if noVersioning then []
              else [DbExecContext (versionSQL dia direction) (versionArgs v direction)])"
  using execStatementsDb_ok [OF assms, of verbose]
  by (cases direction; cases noVersioning)
     (simp_all add: runSQLMigration_def Let_def case_pair_option execQuery_simps versionSQL_args
          split: option.splits)


section \<open>The properties of the specification\<close>

lemmas sanitize_eval =
  clearStatement_def comments_copy comments_match empty_copy empty_match

text \<open>
  C7 as stated, for every string, fails: an empty line followed by a line that begins
  with a carriage return and a comment marker loses the line feed and the carriage
  return in the first pass, and only then is the comment in column 0, so that the
  second pass removes it.
\<close>

theorem clearStatement_not_idempotent:
  "clearStatement (clearStatement (LF # CR # ''--x'')) \<noteq> clearStatement (LF # CR # ''--x'')"
  by (simp add: sanitize_eval)

text \<open>The amended C7 on a text with a comment whose line feed is followed by a carriage
  return, and with a carriage return inside a line.\<close>

theorem clearStatement_idempotent_witness:
  "noCrCommentAfterStripped (''--c'' @ [LF, CR] @ ''b'' @ [CR] @ ''a'') \<and>
   clearStatement (''--c'' @ [LF, CR] @ ''b'' @ [CR] @ ''a'') = ''b'' @ [CR] @ ''a'' \<and>
   clearStatement (clearStatement (''--c'' @ [LF, CR] @ ''b'' @ [CR] @ ''a'')) =
     clearStatement (''--c'' @ [LF, CR] @ ''b'' @ [CR] @ ''a'')"
proof -
  have h: "noCrCommentAfterStripped (''--c'' @ [LF, CR] @ ''b'' @ [CR] @ ''a'')"
    by (simp add: noCrCommentAfterStripped_def isStrippedLine_def isCommentLine_def
          isEmptyLine_def crRunThenComment_def)
  have "clearStatement (''--c'' @ [LF, CR] @ ''b'' @ [CR] @ ''a'') = ''b'' @ [CR] @ ''a''"
    by (simp add: sanitize_eval)
  with h clearStatement_idempotent [of "''--c'' @ [LF, CR] @ ''b'' @ [CR] @ ''a''"]
  show ?thesis by blast
qed

text \<open>
  C9 as stated fails on a text whose second line begins with a carriage return: that
  line has a whitespace character before \<open>--\<close> and is not empty, yet it does not
  reach the output unchanged: the carriage return is stripped with the empty line
  before it.
\<close>

theorem clearStatement_changes_line:
  "clearStatement (LF # CR # ''--x'') = ''--x'' \<and>
   stripLines (LF # CR # ''--x'') = CR # ''--x'' \<and>
   clearStatement (LF # CR # ''--x'') \<noteq> stripLines (LF # CR # ''--x'')"
  by (simp add: sanitize_eval stripLines_def splitLines_def isCommentLine_def isEmptyLine_def)

text \<open>The amended C9 on a text with a kept line that begins with a carriage return and
  has whitespace before its comment marker, a comment in column 0, an empty line and a
  trailing inline comment.\<close>

theorem clearStatement_strips_lines_witness:
  "noCrAfterStripped (''a'' @ [LF, CR] @ '' --x'' @ [LF] @ ''--b'' @ [LF, LF] @ ''x; -- c'' @ [CR, LF]) \<and>
   clearStatement (''a'' @ [LF, CR] @ '' --x'' @ [LF] @ ''--b'' @ [LF, LF] @ ''x; -- c'' @ [CR, LF]) =
     ''a'' @ [LF, CR] @ '' --x'' @ [LF] @ ''x; -- c'' @ [CR, LF]"
proof -
  have h: "noCrAfterStripped (''a'' @ [LF, CR] @ '' --x'' @ [LF] @ ''--b'' @ [LF, LF] @ ''x; -- c'' @ [CR, LF])"
    by (simp add: noCrAfterStripped_def isStrippedLine_def isCommentLine_def isEmptyLine_def)
  have "stripLines (''a'' @ [LF, CR] @ '' --x'' @ [LF] @ ''--b'' @ [LF, LF] @ ''x; -- c'' @ [CR, LF]) =
     ''a'' @ [LF, CR] @ '' --x'' @ [LF] @ ''x; -- c'' @ [CR, LF]"
    by (simp add: stripLines_def splitLines_def isCommentLine_def isEmptyLine_def)
  with h clearStatement_strips_lines
    [of "''a'' @ [LF, CR] @ '' --x'' @ [LF] @ ''--b'' @ [LF, LF] @ ''x; -- c'' @ [CR, LF]"]
  show ?thesis by simp
qed

lemma stillInProgress_logged:
  "logged (stillInProgress True ds w) =
     logged w @
     map (\<lambda>d. (grayColor @ ''Executing statement still in progress for %v'' @ resetColor, [LogElapsed d])) ds"
  by (induction ds arbitrary: w) (simp_all add: verboseInfo_def)

text \<open>
  C8: for every executor, statement, arguments and schedule of the timer, \<open>execQuery\<close>
  in verbose mode returns the same result as the fast path, which is the executor's
  own error; the database and the calls made on it are the same, the executor is
  called once, and the verbose path only adds one progress line for each firing of the
  timer.
\<close>

theorem execQuery_verbose_same_result:
  "fst (execQuery True fn query args w) = fst (execQuery False fn query args w) \<and>
   fst (execQuery True fn query args w) = snd (fst (fn query args w)) \<and>
   db (snd (execQuery True fn query args w)) = db (snd (execQuery False fn query args w)) \<and>
   calls (snd (execQuery True fn query args w)) = calls (snd (execQuery False fn query args w)) \<and>
   logged (snd (execQuery True fn query args w)) =
     logged (snd (execQuery False fn query args w)) @
     map (\<lambda>d. (grayColor @ ''Executing statement still in progress for %v'' @ resetColor, [LogElapsed d]))
       (fst (nextTicks (snd (fn query args w)))) \<and>
   newCalls w (snd (execQuery True (tx_ExecContext drv) query args w)) = [TxExecContext query args] \<and>
   newCalls w (snd (execQuery True (db_ExecContext drv) query args w)) = [DbExecContext query args]"
  by (simp add: execQuery_eq stillInProgress_logged newCalls_def)

text \<open>A statement that fails while the timer fires twice.\<close>

theorem execQuery_verbose_same_result_witness:
  "fst (execQuery True (db_ExecContext (txStore (journal [''bad''])))  ''bad'' []
     (freshWorld\<lparr>timer := [[60000000000, 120000000000]]\<rparr>)) = Some ''syntax error: bad'' \<and>
   fst (execQuery False (db_ExecContext (txStore (journal [''bad''])))  ''bad'' []
     (freshWorld\<lparr>timer := [[60000000000, 120000000000]]\<rparr>)) = Some ''syntax error: bad'' \<and>
   logged (snd (execQuery True (db_ExecContext (txStore (journal [''bad''])))  ''bad'' []
     (freshWorld\<lparr>timer := [[60000000000, 120000000000]]\<rparr>))) =
     [(grayColor @ ''Executing statement still in progress for %v'' @ resetColor, [LogElapsed 60000000000]),
      (grayColor @ ''Executing statement still in progress for %v'' @ resetColor, [LogElapsed 120000000000])]"
  using execQuery_verbose_same_result [of "db_ExecContext (txStore (journal [''bad'']))" "''bad''" "[]"
      "freshWorld\<lparr>timer := [[60000000000, 120000000000]]\<rparr>" "txStore (journal [''bad''])"]
  by (simp add: execQuery_def db_ExecContext_def txStore_def journal_def freshWorld_def nextTicks_def)

text \<open>
  C10: \<open>execQuery\<close> ignores the \<open>sql.Result\<close> of the executor: an executor that
  answers with any other result value gives the same outcome, and what is returned is
  the executor's error, in both modes.
\<close>

theorem execQuery_ignores_result:
  "execQuery verbose (withResult g fn) query args w = execQuery verbose fn query args w \<and>
   fst (execQuery verbose fn query args w) = snd (fst (fn query args w))"
  by (simp add: execQuery_eq withResult_def split_beta)


lemma runSQLMigration_calls:
  "newCalls w (snd (runSQLMigration verbose dia drv L useTx v direction noVersioning w)) =
     (if useTx then
        BeginTx #
        (case fst (beginTx drv (db w)) of
           Some e \<Rightarrow> []
         | None \<Rightarrow>
             (case firstFailure (txExecContext drv) L (snd (beginTx drv (db w))) of
                Some (k, e) \<Rightarrow> map (\<lambda>q. TxExecContext q []) (take (Suc k) L) @ [TxRollback]
              | None \<Rightarrow>
                  map (\<lambda>q. TxExecContext q []) L @
                  (if noVersioning then [TxCommit]
                   else [TxExecContext (versionSQL dia direction) (versionArgs v direction),
                         if snd (fst (txExecContext drv (versionSQL dia direction) (versionArgs v direction)
                              (applyAll (txExecContext drv) L (snd (beginTx drv (db w)))))) = None
                         then TxCommit else TxRollback])))
      else
        (case firstFailure (dbExecContext drv) L (db w) of
           Some (k, e) \<Rightarrow> map (\<lambda>q. DbExecContext q []) (take (Suc k) L)
         | None \<Rightarrow>
             map (\<lambda>q. DbExecContext q []) L @
             (if noVersioning then []
              else [DbExecContext (versionSQL dia direction) (versionArgs v direction)])))"
proof (cases useTx)
  case False
  show ?thesis
  proof (cases "firstFailure (dbExecContext drv) L (db w)")
    case None
    from run_db_ok [OF None, of verbose dia v direction noVersioning] False None
    show ?thesis by (simp add: newCalls_def)
  next
    case (Some p)
    obtain k e where p: "p = (k, e)" by (cases p)
    from run_db_stmt_fail [OF Some [unfolded p], of verbose dia v direction noVersioning] False Some p
    show ?thesis by (simp add: newCalls_def)
  qed
next
  case True
  show ?thesis
  proof (cases "fst (beginTx drv (db w))")
    case (Some e)
    from run_tx_begin_fail [OF Some, of verbose dia L v direction noVersioning] True Some
    show ?thesis by (simp add: newCalls_def)
  next
    case began: None
    show ?thesis
    proof (cases "firstFailure (txExecContext drv) L (snd (beginTx drv (db w)))")
      case (Some p)
      obtain k e where p: "p = (k, e)" by (cases p)
      from run_tx_stmt_fail [OF began Some [unfolded p], of verbose dia v direction noVersioning]
        True began Some p
      show ?thesis by (simp add: newCalls_def)
    next
      case ok: None
      show ?thesis
      proof (cases "noVersioning \<or> snd (fst (txExecContext drv (versionSQL dia direction) (versionArgs v direction)
           (applyAll (txExecContext drv) L (snd (beginTx drv (db w)))))) = None")
        case commit: True
        from run_tx_commit [OF began ok commit, of verbose] True began ok commit
        show ?thesis by (auto simp: newCalls_def)
      next
        case False
        then obtain e where nv: "\<not> noVersioning"
          and e: "snd (fst (txExecContext drv (versionSQL dia direction) (versionArgs v direction)
           (applyAll (txExecContext drv) L (snd (beginTx drv (db w)))))) = Some e"
          by auto
        from run_tx_version_fail [OF began ok nv e, of verbose] True began ok nv e
        show ?thesis by (simp add: newCalls_def)
      qed
    qed
  qed
qed


text \<open>An executor that reports one affected row, and the same with forty-two.\<close>

theorem execQuery_ignores_result_witness:
  "execQuery True (withResult (\<lambda>r. r + 41) (db_ExecContext (txStore (journal [])))) ''x'' [] freshWorld =
   execQuery True (db_ExecContext (txStore (journal []))) ''x'' [] freshWorld \<and>
   fst (fst (withResult (\<lambda>r. r + 41) (db_ExecContext (txStore (journal []))) ''x'' [] freshWorld)) = 42 \<and>
   fst (execQuery True (db_ExecContext (txStore (journal []))) ''x'' [] freshWorld) = None"
  using execQuery_ignores_result [of True "\<lambda>r. r + 41" "db_ExecContext (txStore (journal []))" "''x''" "[]" freshWorld]
  by (simp add: withResult_def db_ExecContext_def txStore_def journal_def freshWorld_def)

lemma txStore_simps [simp]:
  "fst (beginTx (txStore eng) s) = beginError eng (committed s)"
  "committed (snd (beginTx (txStore eng) s)) = committed s"
  "committed (snd (txExecContext (txStore eng) query args s)) = committed s"
  "committed (snd (txRollback (txStore eng) s)) = committed s"
  "pending (snd (txRollback (txStore eng) s)) = None"
  by (simp_all add: txStore_def split: option.splits prod.splits)

lemma txStore_applyAll [simp]:
  "committed (applyAll (txExecContext (txStore eng)) L s) = committed s"
  by (induction L arbitrary: s) simp_all

text \<open>
  C1: in transactional mode, when the transaction has begun and a statement of the list
  fails, or all succeed and the bookkeeping operation fails, \<open>runSQLMigration\<close>
  returns an error after a rollback, which is its last call, and never commits; on a
  database with transactions the committed content is then what it was before the
  call (no statement of the list is visible, no version record is written or
  removed) and no transaction is left open.
\<close>

theorem transactional_failure_rolls_back:
  assumes "beginError eng (committed (db w)) = None"
    and "firstFailure (txExecContext (txStore eng)) L (snd (beginTx (txStore eng) (db w))) \<noteq> None \<or>
         (\<not> noVersioning \<and>
          snd (fst (txExecContext (txStore eng) (versionSQL dia direction) (versionArgs v direction)
            (applyAll (txExecContext (txStore eng)) L (snd (beginTx (txStore eng) (db w)))))) \<noteq> None)"
  shows "fst (runSQLMigration verbose dia (txStore eng) L True v direction noVersioning w) \<noteq> None \<and>
         last (calls (snd (runSQLMigration verbose dia (txStore eng) L True v direction noVersioning w))) = TxRollback \<and>
         TxCommit \<notin> set (newCalls w (snd (runSQLMigration verbose dia (txStore eng) L True v direction noVersioning w))) \<and>
         committed (db (snd (runSQLMigration verbose dia (txStore eng) L True v direction noVersioning w))) =
           committed (db w) \<and>
         pending (db (snd (runSQLMigration verbose dia (txStore eng) L True v direction noVersioning w))) = None"
proof -
  from assms(1) have began: "fst (beginTx (txStore eng) (db w)) = None" by simp
  show ?thesis
  proof (cases "firstFailure (txExecContext (txStore eng)) L (snd (beginTx (txStore eng) (db w)))")
    case (Some p)
    obtain k e where p: "p = (k, e)" by (cases p)
    from run_tx_stmt_fail [OF began Some [unfolded p], of verbose dia v direction noVersioning]
    show ?thesis by (auto simp: newCalls_def)
  next
    case None
    with assms(2) obtain e where nv: "\<not> noVersioning"
      and e: "snd (fst (txExecContext (txStore eng) (versionSQL dia direction) (versionArgs v direction)
            (applyAll (txExecContext (txStore eng)) L (snd (beginTx (txStore eng) (db w)))))) = Some e"
      by auto
    from run_tx_version_fail [OF began None nv e, of verbose]
    show ?thesis by (auto simp: newCalls_def)
  qed
qed

lemmas model_eval =
  runSQLMigration_def execQuery_def tx_ExecContext_def db_ExecContext_def db_BeginTx_def
  tx_Rollback_def tx_Commit_def verboseInfo_def nextTicks_def txStore_def journal_def
  testDialect_def freshWorld_def versionSQL_def versionArgs_def newCalls_def Let_def
  grayColor_def resetColor_def

text \<open>The scenario of the specification: the second statement has a syntax error, and
  the table of the first one does not exist after the call.\<close>

theorem transactional_failure_rolls_back_witness:
  "beginError (journal [''INSERT INTO t VALUES(bad syntax)'']) (committed (db freshWorld)) = None \<and>
   firstFailure (txExecContext (txStore (journal [''INSERT INTO t VALUES(bad syntax)''])))
     [''CREATE TABLE t(x int)'', ''INSERT INTO t VALUES(bad syntax)'']
     (snd (beginTx (txStore (journal [''INSERT INTO t VALUES(bad syntax)''])) (db freshWorld))) \<noteq> None \<and>
   last (calls (snd (runSQLMigration False testDialect (txStore (journal [''INSERT INTO t VALUES(bad syntax)'']))
     [''CREATE TABLE t(x int)'', ''INSERT INTO t VALUES(bad syntax)''] True 2 True False freshWorld))) = TxRollback \<and>
   committed (db (snd (runSQLMigration False testDialect (txStore (journal [''INSERT INTO t VALUES(bad syntax)'']))
     [''CREATE TABLE t(x int)'', ''INSERT INTO t VALUES(bad syntax)''] True 2 True False freshWorld))) = []"
proof -
  have h1: "beginError (journal [''INSERT INTO t VALUES(bad syntax)'']) (committed (db freshWorld)) = None"
    by (simp add: journal_def)
  have h2: "firstFailure (txExecContext (txStore (journal [''INSERT INTO t VALUES(bad syntax)''])))
     [''CREATE TABLE t(x int)'', ''INSERT INTO t VALUES(bad syntax)'']
     (snd (beginTx (txStore (journal [''INSERT INTO t VALUES(bad syntax)''])) (db freshWorld))) \<noteq> None"
    by (simp add: txStore_def journal_def freshWorld_def)
  have "committed (db freshWorld) = []" by (simp add: freshWorld_def)
  with transactional_failure_rolls_back [OF h1 disjI1 [OF h2], of False testDialect 2 True False] h1 h2
  show ?thesis by simp
qed


text \<open>
  C2: in autocommit mode, when statement \<open>k\<close> is the first that fails, with error
  \<open>e\<close>, \<open>runSQLMigration\<close> returns that error (wrapped with the sanitized statement);
  the database is in the state that the statements up to \<open>k\<close> left, executed in
  order on the connection, and the calls are exactly these statements: no later
  statement, no bookkeeping operation, no compensating action.
\<close>

theorem autocommit_failure_keeps_prefix:
  assumes "firstFailure (dbExecContext drv) L (db w) = Some (k, e)"
  shows "fst (runSQLMigration verbose dia drv L False v direction noVersioning w) =
           Some (Errorf ''failed to execute SQL query %q: %w'' [clearStatement (L ! k)] e) \<and>
         db (snd (runSQLMigration verbose dia drv L False v direction noVersioning w)) =
           applyAll (dbExecContext drv) (take (Suc k) L) (db w) \<and>
         newCalls w (snd (runSQLMigration verbose dia drv L False v direction noVersioning w)) =
           map (\<lambda>q. DbExecContext q []) (take (Suc k) L)"
  using run_db_stmt_fail [OF assms, of verbose dia v direction noVersioning]
  by (simp add: newCalls_def)

text \<open>Three statements of which the second fails: the table of the first one stays
  committed, the third is never run.\<close>

theorem autocommit_failure_keeps_prefix_witness:
  "firstFailure (dbExecContext (txStore (journal [''INSERT INTO t VALUES(bad syntax)''])))
     [''CREATE TABLE t(x int)'', ''INSERT INTO t VALUES(bad syntax)'', ''CREATE TABLE u(y int)'']
     (db freshWorld) = Some (1, ''syntax error: INSERT INTO t VALUES(bad syntax)'') \<and>
   fst (runSQLMigration False testDialect (txStore (journal [''INSERT INTO t VALUES(bad syntax)'']))
     [''CREATE TABLE t(x int)'', ''INSERT INTO t VALUES(bad syntax)'', ''CREATE TABLE u(y int)'']
     False 2 True False freshWorld) =
     Some (Errorf ''failed to execute SQL query %q: %w'' [''INSERT INTO t VALUES(bad syntax)'']
       ''syntax error: INSERT INTO t VALUES(bad syntax)'') \<and>
   committed (db (snd (runSQLMigration False testDialect (txStore (journal [''INSERT INTO t VALUES(bad syntax)'']))
     [''CREATE TABLE t(x int)'', ''INSERT INTO t VALUES(bad syntax)'', ''CREATE TABLE u(y int)'']
     False 2 True False freshWorld))) = [''CREATE TABLE t(x int)''] \<and>
   newCalls freshWorld (snd (runSQLMigration False testDialect (txStore (journal [''INSERT INTO t VALUES(bad syntax)'']))
     [''CREATE TABLE t(x int)'', ''INSERT INTO t VALUES(bad syntax)'', ''CREATE TABLE u(y int)'']
     False 2 True False freshWorld)) =
     [DbExecContext ''CREATE TABLE t(x int)'' [], DbExecContext ''INSERT INTO t VALUES(bad syntax)'' []]"
proof -
  have h: "firstFailure (dbExecContext (txStore (journal [''INSERT INTO t VALUES(bad syntax)''])))
     [''CREATE TABLE t(x int)'', ''INSERT INTO t VALUES(bad syntax)'', ''CREATE TABLE u(y int)'']
     (db freshWorld) = Some (1, ''syntax error: INSERT INTO t VALUES(bad syntax)'')"
    by (simp add: txStore_def journal_def freshWorld_def)
  have c: "clearStatement ''INSERT INTO t VALUES(bad syntax)'' = ''INSERT INTO t VALUES(bad syntax)''"
    by (simp add: sanitize_eval)
  have a: "committed (applyAll (dbExecContext (txStore (journal [''INSERT INTO t VALUES(bad syntax)''])))
     [''CREATE TABLE t(x int)'', ''INSERT INTO t VALUES(bad syntax)''] (db freshWorld)) = [''CREATE TABLE t(x int)'']"
    by (simp add: txStore_def journal_def freshWorld_def)
  from autocommit_failure_keeps_prefix [OF h, of False testDialect 2 True False] h c a
  show ?thesis by simp
qed

text \<open>
  C3: the calls of one invocation, in both modes. The statements are executed in list
  order; after the first failing statement comes nothing but the rollback of the
  transactional mode; when all statements succeed, the bookkeeping operation (if
  versioning is enabled) comes directly after the last statement and, in transactional
  mode, before the commit (or before the rollback, when the bookkeeping fails).
\<close>

theorem statements_run_in_order:
  "newCalls w (snd (runSQLMigration verbose dia drv L useTx v direction noVersioning w)) =
     (if useTx then
        BeginTx #
        (case fst (beginTx drv (db w)) of
           Some e \<Rightarrow> []
         | None \<Rightarrow>
             (case firstFailure (txExecContext drv) L (snd (beginTx drv (db w))) of
                Some (k, e) \<Rightarrow> map (\<lambda>q. TxExecContext q []) (take (Suc k) L) @ [TxRollback]
              | None \<Rightarrow>
                  map (\<lambda>q. TxExecContext q []) L @
                  (if noVersioning then [TxCommit]
                   else [TxExecContext (versionSQL dia direction) (versionArgs v direction),
                         if snd (fst (txExecContext drv (versionSQL dia direction) (versionArgs v direction)
                              (applyAll (txExecContext drv) L (snd (beginTx drv (db w)))))) = None
                         then TxCommit else TxRollback])))
      else
        (case firstFailure (dbExecContext drv) L (db w) of
           Some (k, e) \<Rightarrow> map (\<lambda>q. DbExecContext q []) (take (Suc k) L)
         | None \<Rightarrow>
             map (\<lambda>q. DbExecContext q []) L @
             (if noVersioning then []
              else [DbExecContext (versionSQL dia direction) (versionArgs v direction)])))"
  by (rule runSQLMigration_calls)

text \<open>The first scenario of the specification: two statements, forward, version 2.\<close>

theorem statements_run_in_order_witness:
  "newCalls freshWorld (snd (runSQLMigration False testDialect (txStore (journal []))
     [''CREATE TABLE t(x int)'', ''INSERT INTO t VALUES(1)''] True 2 True False freshWorld)) =
     [BeginTx, TxExecContext ''CREATE TABLE t(x int)'' [], TxExecContext ''INSERT INTO t VALUES(1)'' [],
      TxExecContext (insertVersionSQL testDialect) [ArgInt64 2, ArgBool True], TxCommit]"
proof -
  have "fst (beginTx (txStore (journal [])) (db freshWorld)) = None"
    by (simp add: txStore_def journal_def)
  moreover have "firstFailure (txExecContext (txStore (journal [])))
      [''CREATE TABLE t(x int)'', ''INSERT INTO t VALUES(1)'']
      (snd (beginTx (txStore (journal [])) (db freshWorld))) = None"
    by (simp add: txStore_def journal_def freshWorld_def)
  moreover have "snd (fst (txExecContext (txStore (journal [])) (versionSQL testDialect True) (versionArgs 2 True)
      (applyAll (txExecContext (txStore (journal []))) [''CREATE TABLE t(x int)'', ''INSERT INTO t VALUES(1)'']
        (snd (beginTx (txStore (journal [])) (db freshWorld)))))) = None"
    by (simp add: txStore_def journal_def freshWorld_def)
  ultimately show ?thesis
    using statements_run_in_order [of freshWorld False testDialect "txStore (journal [])"
      "[''CREATE TABLE t(x int)'', ''INSERT INTO t VALUES(1)'']" True 2 True False]
    by (simp add: versionSQL_def versionArgs_def)
qed


lemma runSQLMigration_calls_noVersioning:
  "set (newCalls w (snd (runSQLMigration verbose dia drv L useTx v direction True w))) \<subseteq>
     {BeginTx, TxRollback, TxCommit} \<union> (\<lambda>q. TxExecContext q []) ` set L \<union>
     (\<lambda>q. DbExecContext q []) ` set L"
proof -
  have "set (take n L) \<subseteq> set L" for n by (rule set_take_subset)
  then show ?thesis
    by (auto simp: runSQLMigration_calls split: option.splits)
qed

text \<open>
  C4: with versioning disabled no invocation, in either mode and whatever the
  statements do, makes an insert-version or a delete-version call, for any version and
  direction: every call is the begin, the rollback or the commit of the transaction,
  or a statement of the list without bind parameters.
\<close>

theorem no_bookkeeping_without_versioning:
  "TxExecContext (versionSQL dia d) (versionArgs u d) \<notin>
     set (newCalls w (snd (runSQLMigration verbose dia drv L useTx v direction True w))) \<and>
   DbExecContext (versionSQL dia d) (versionArgs u d) \<notin>
     set (newCalls w (snd (runSQLMigration verbose dia drv L useTx v direction True w))) \<and>
   set (newCalls w (snd (runSQLMigration verbose dia drv L useTx v direction True w))) \<subseteq>
     {BeginTx, TxRollback, TxCommit} \<union> (\<lambda>q. TxExecContext q []) ` set L \<union>
     (\<lambda>q. DbExecContext q []) ` set L"
proof -
  have "versionArgs u d \<noteq> []" by (simp add: versionArgs_def)
  then show ?thesis
    using runSQLMigration_calls_noVersioning [of w verbose dia drv L useTx v direction] by auto
qed

text \<open>A baseline migration inside a transaction.\<close>

theorem no_bookkeeping_without_versioning_witness:
  "newCalls freshWorld (snd (runSQLMigration False testDialect (txStore (journal []))
     [''CREATE TABLE t(x int)''] True 2 True True freshWorld)) =
     [BeginTx, TxExecContext ''CREATE TABLE t(x int)'' [], TxCommit] \<and>
   TxExecContext (versionSQL testDialect True) (versionArgs 2 True) \<notin>
     set (newCalls freshWorld (snd (runSQLMigration False testDialect (txStore (journal []))
       [''CREATE TABLE t(x int)''] True 2 True True freshWorld)))"
proof -
  have "newCalls freshWorld (snd (runSQLMigration False testDialect (txStore (journal []))
     [''CREATE TABLE t(x int)''] True 2 True True freshWorld)) =
     [BeginTx, TxExecContext ''CREATE TABLE t(x int)'' [], TxCommit]"
    by (simp add: model_eval)
  with no_bookkeeping_without_versioning [of testDialect True 2 freshWorld False
      "txStore (journal [])" "[''CREATE TABLE t(x int)'']" True 2 True]
  show ?thesis by blast
qed

text \<open>
  C5: when every statement succeeds and versioning is enabled, the statements that
  \<open>runSQLMigration\<close> executes are those of the list, in order, followed by exactly one
  bookkeeping operation: forward, the insert-version statement of the dialect with the
  arguments (version, direction); backward, the delete-version statement with the
  single argument (version).
\<close>

theorem one_bookkeeping_operation:
  assumes "began drv useTx (db w)"
    and "firstFailure (executor drv useTx) L (startState drv useTx (db w)) = None"
    and "\<not> noVersioning"
  shows "filter isExec (newCalls w (snd (runSQLMigration verbose dia drv L useTx v direction noVersioning w))) =
           map (\<lambda>q. execCall useTx q []) L @
           [execCall useTx (if direction then insertVersionSQL dia else deleteVersionSQL dia)
              (if direction then [ArgInt64 v, ArgBool direction] else [ArgInt64 v])]"
proof -
  have "filter isExec (map (\<lambda>q. TxExecContext q []) L) = map (\<lambda>q. TxExecContext q []) L"
    and "filter isExec (map (\<lambda>q. DbExecContext q []) L) = map (\<lambda>q. DbExecContext q []) L"
    by (induction L) (simp_all add: isExec_def)
  with assms show ?thesis
    by (cases useTx)
       (simp_all add: runSQLMigration_calls began_def executor_def startState_def execCall_def
          isExec_def versionSQL_def versionArgs_def)
qed

text \<open>The scenario of the specification: backward, version 2.\<close>

theorem one_bookkeeping_operation_witness:
  "began (txStore (journal [])) False (db freshWorld) \<and>
   firstFailure (executor (txStore (journal [])) False) [''DROP TABLE t'']
     (startState (txStore (journal [])) False (db freshWorld)) = None \<and>
   filter isExec (newCalls freshWorld (snd (runSQLMigration False testDialect (txStore (journal []))
     [''DROP TABLE t''] False 2 False False freshWorld))) =
     [DbExecContext ''DROP TABLE t'' [], DbExecContext (deleteVersionSQL testDialect) [ArgInt64 2]]"
proof -
  have h1: "began (txStore (journal [])) False (db freshWorld)" by (simp add: began_def)
  have h2: "firstFailure (executor (txStore (journal [])) False) [''DROP TABLE t'']
     (startState (txStore (journal [])) False (db freshWorld)) = None"
    by (simp add: executor_def startState_def txStore_def journal_def freshWorld_def)
  have h3: "\<not> False" by simp
  from one_bookkeeping_operation [OF h1 h2 h3, of False testDialect 2 False] h1 h2
  show ?thesis by (simp add: execCall_def)
qed


lemma withRollbackError_simps [simp]:
  "beginTx (withRollbackError r drv) = beginTx drv"
  "txExecContext (withRollbackError r drv) = txExecContext drv"
  "dbExecContext (withRollbackError r drv) = dbExecContext drv"
  "txCommit (withRollbackError r drv) = txCommit drv"
  "snd (txRollback (withRollbackError r drv) s) = snd (txRollback drv s)"
  "fst (txRollback (withRollbackError r drv) s) = r s"
  by (simp_all add: withRollbackError_def)

lemma withRollbackError_wrappers [simp]:
  "db_BeginTx (withRollbackError r drv) = db_BeginTx drv"
  "tx_ExecContext (withRollbackError r drv) = tx_ExecContext drv"
  "db_ExecContext (withRollbackError r drv) = db_ExecContext drv"
  "tx_Commit (withRollbackError r drv) = tx_Commit drv"
  "snd (tx_Rollback (withRollbackError r drv) w) = snd (tx_Rollback drv w)"
  by (simp_all add: fun_eq_iff db_BeginTx_def tx_ExecContext_def db_ExecContext_def tx_Commit_def
        tx_Rollback_def split_beta)

lemma withRollbackError_execStatementsTx:
  "execStatementsTx verbose (withRollbackError r drv) L w = execStatementsTx verbose drv L w"
  by (induction L arbitrary: w) (simp_all add: Let_def split: prod.splits option.splits)

lemma withRollbackError_execStatementsDb:
  "execStatementsDb verbose (withRollbackError r drv) L w = execStatementsDb verbose drv L w"
  by (induction L arbitrary: w) (simp_all add: Let_def split: prod.splits option.splits)

lemma withRollbackError_runSQLMigration:
  "runSQLMigration verbose dia (withRollbackError r drv) L useTx v direction noVersioning w =
   runSQLMigration verbose dia drv L useTx v direction noVersioning w"
  by (simp add: runSQLMigration_def withRollbackError_execStatementsTx
        withRollbackError_execStatementsDb
      cong: option.case_cong prod.case_cong if_cong)

text \<open>
  C6 (as amended): in transactional mode the error that the rollback answers with has
  no effect at all: the returned error, the lines given to the logger, the calls and
  the database are the same whatever it is. When a statement fails the returned error
  wraps the error of that statement, and when the bookkeeping operation fails it wraps
  the error of that operation; the failure of the rollback is dropped, neither
  returned nor logged.
\<close>

theorem rollback_error_dropped:
  assumes "fst (beginTx drv (db w)) = None"
  shows "runSQLMigration verbose dia (withRollbackError r drv) L True v direction noVersioning w =
           runSQLMigration verbose dia drv L True v direction noVersioning w \<and>
         (firstFailure (txExecContext drv) L (snd (beginTx drv (db w))) = Some (k, e) \<longrightarrow>
            fst (runSQLMigration verbose dia (withRollbackError r drv) L True v direction noVersioning w) =
              Some (Errorf ''failed to execute SQL query %q: %w'' [clearStatement (L ! k)] e)) \<and>
         (firstFailure (txExecContext drv) L (snd (beginTx drv (db w))) = None \<and> \<not> noVersioning \<and>
          snd (fst (txExecContext drv (versionSQL dia direction) (versionArgs v direction)
            (applyAll (txExecContext drv) L (snd (beginTx drv (db w)))))) = Some e \<longrightarrow>
            fst (runSQLMigration verbose dia (withRollbackError r drv) L True v direction noVersioning w) =
              Some (Errorf (if direction then ''failed to insert new goose version: %w''
                            else ''failed to delete goose version: %w'') [] e))"
  using run_tx_stmt_fail [OF assms, of L k e verbose dia v direction noVersioning]
    run_tx_version_fail [OF assms, of L noVersioning dia direction v e verbose]
  by (simp add: withRollbackError_runSQLMigration)

text \<open>A failing statement followed by a rollback that fails as well.\<close>

theorem rollback_error_dropped_witness:
  "fst (beginTx (txStore (journal [''bad''])) (db freshWorld)) = None \<and>
   firstFailure (txExecContext (txStore (journal [''bad''])))  [''bad'']
     (snd (beginTx (txStore (journal [''bad''])) (db freshWorld))) = Some (0, ''syntax error: bad'') \<and>
   fst (txRollback (withRollbackError (\<lambda>s. Some ''connection lost'') (txStore (journal [''bad''])))
     (db freshWorld)) = Some ''connection lost'' \<and>
   fst (runSQLMigration True testDialect
     (withRollbackError (\<lambda>s. Some ''connection lost'') (txStore (journal [''bad''])))
     [''bad''] True 2 True False freshWorld) =
     Some (Errorf ''failed to execute SQL query %q: %w'' [''bad''] ''syntax error: bad'')"
proof -
  have h: "fst (beginTx (txStore (journal [''bad''])) (db freshWorld)) = None"
    by (simp add: txStore_def journal_def)
  have f: "firstFailure (txExecContext (txStore (journal [''bad''])))  [''bad'']
     (snd (beginTx (txStore (journal [''bad''])) (db freshWorld))) = Some (0, ''syntax error: bad'')"
    by (simp add: txStore_def journal_def freshWorld_def)
  have c: "clearStatement ([''bad''] ! 0) = ''bad''" by (simp add: sanitize_eval)
  have r: "fst (txRollback (withRollbackError (\<lambda>s. Some ''connection lost'') (txStore (journal [''bad''])))
     (db freshWorld)) = Some ''connection lost''"
    by simp
  from rollback_error_dropped [OF h, of True testDialect "\<lambda>s. Some ''connection lost''" "[''bad'']"
      2 True False 0 "''syntax error: bad''"] f
  have "fst (runSQLMigration True testDialect
     (withRollbackError (\<lambda>s. Some ''connection lost'') (txStore (journal [''bad''])))
     [''bad''] True 2 True False freshWorld) =
     Some (Errorf ''failed to execute SQL query %q: %w'' [clearStatement ([''bad''] ! 0)] ''syntax error: bad'')"
    by blast
  then have "fst (runSQLMigration True testDialect
     (withRollbackError (\<lambda>s. Some ''connection lost'') (txStore (journal [''bad''])))
     [''bad''] True 2 True False freshWorld) =
     Some (Errorf ''failed to execute SQL query %q: %w'' [''bad''] ''syntax error: bad'')"
    by (simp only: c)
  with h f r show ?thesis by (intro conjI)
qed

text \<open>
  C6 as stated fails in its last part: in verbose mode, with a statement that fails
  and a rollback that fails, the logger receives the three lines below, the last one
  written before the rollback is tried, and these are the very lines of the run in
  which the rollback succeeds. The failure of the rollback is noted nowhere.
\<close>

theorem rollback_failure_not_logged:
  "fst (tx_Rollback (withRollbackError (\<lambda>s. Some ''connection lost'') (txStore (journal [''bad''])))
     (snd (db_BeginTx (txStore (journal [''bad''])) freshWorld))) = Some ''connection lost'' \<and>
   logged (snd (runSQLMigration True testDialect
     (withRollbackError (\<lambda>s. Some ''connection lost'') (txStore (journal [''bad''])))
     [''bad''] True 2 True False freshWorld)) =
     [(grayColor @ ''Begin transaction'' @ resetColor, []),
      (grayColor @ ''Executing statement: %s'' @ [LF] @ resetColor, [LogString ''bad'']),
      (grayColor @ ''Rollback transaction'' @ resetColor, [])] \<and>
   logged (snd (runSQLMigration True testDialect
     (withRollbackError (\<lambda>s. Some ''connection lost'') (txStore (journal [''bad''])))
     [''bad''] True 2 True False freshWorld)) =
   logged (snd (runSQLMigration True testDialect
     (withRollbackError (\<lambda>s. None) (txStore (journal [''bad''])))
     [''bad''] True 2 True False freshWorld))"
proof -
  have c: "clearStatement ''bad'' = ''bad''" by (simp add: sanitize_eval)
  show ?thesis
    by (simp add: model_eval withRollbackError_def c)
qed

end
